theory Spec2Isabelle
  imports Complex_Main "HOL-Library.Word"
begin

section \<open>JavaScript strings\<close>

text \<open>
  A JavaScript string is a sequence of 16-bit UTF-16 code units; \<open>length\<close>,
  \<open>substring\<close>, \<open>trim\<close> and the regular expressions of the source (none of
  which carries the \<open>u\<close> flag) all work on code units. The Hangul syllables the
  token estimator looks for do not fit Isabelle's 8-bit \<open>char\<close>, so text is
  modelled as a list of 16-bit words.
\<close>

type_synonym code_unit = "16 word"
type_synonym jsstring = "code_unit list"

definition js :: "string \<Rightarrow> jsstring" where
  \<comment> \<open>an ASCII literal as a JavaScript string\<close>
  "js s = map of_char s"

definition TAB :: code_unit where "TAB = 0x09"
definition LF :: code_unit where "LF = 0x0A"
definition CR :: code_unit where "CR = 0x0D"
definition SP :: code_unit where "SP = 0x20"

definition isSpace :: "code_unit \<Rightarrow> bool" where
  \<comment> \<open>the class \<open>\s\<close> of ECMAScript regular expressions, which is also what
      \<open>String.prototype.trim\<close> strips: WhiteSpace and LineTerminator\<close>
  "isSpace c \<longleftrightarrow>
     c = 0x09 \<or> c = 0x0A \<or> c = 0x0B \<or> c = 0x0C \<or> c = 0x0D \<or> c = 0x20 \<or>
     c = 0xA0 \<or> c = 0x1680 \<or> (0x2000 \<le> c \<and> c \<le> 0x200A) \<or>
     c = 0x2028 \<or> c = 0x2029 \<or> c = 0x202F \<or> c = 0x205F \<or> c = 0x3000 \<or>
     c = 0xFEFF"

definition trim :: "jsstring \<Rightarrow> jsstring" where
  "trim s = rev (dropWhile isSpace (rev (dropWhile isSpace s)))"

definition substring0 :: "jsstring \<Rightarrow> int \<Rightarrow> jsstring" where
  \<comment> \<open>\<open>s.substring(0, n)\<close>: a negative end counts as 0, one past the end as the length\<close>
  "substring0 s n = take (nat n) s"

section \<open>lib/ai/utils.ts: token estimate and budget\<close>

definition isHangulSyllable :: "code_unit \<Rightarrow> bool" where
  \<comment> \<open>the character class \<open>[\<dots>]\<close> from U+AC00 to U+D7A3 of \<open>estimateTokens\<close>\<close>
  "isHangulSyllable c \<longleftrightarrow> 0xAC00 \<le> c \<and> c \<le> 0xD7A3"

definition estimateTokens :: "jsstring \<Rightarrow> int" where
  \<comment> \<open>The source computes in double precision; for every length a string can have
      the two quotients, their sum and its ceiling are those of exact arithmetic
      (a sum that is an integer is computed exactly, any other is at least 1/20
      away from an integer), so rationals are used.\<close>
  "estimateTokens text =
     (if text = [] then 0
      else
        let koreanChars = length (filter isHangulSyllable text);
            englishChars = length text - koreanChars;
            estimatedTokens = \<lceil>(of_nat koreanChars :: rat) / 2.5 + of_nat englishChars / 4\<rceil>
        in max 1 estimatedTokens)"

definition validateTokenLimit :: "int \<Rightarrow> int \<Rightarrow> int \<Rightarrow> bool" where
  "validateTokenLimit inputTokens maxTokens reservedTokens \<longleftrightarrow>
     inputTokens \<le> maxTokens - reservedTokens"

record token_validation =
  isValid :: bool
  adjustedText :: "jsstring option"
  estimatedTokens :: int

definition validateAndAdjustTokens :: "jsstring \<Rightarrow> int \<Rightarrow> token_validation" where
  \<comment> \<open>\<open>maxTokens\<close> is an integer. \<open>Math.floor\<close> of the quotient is \<open>div\<close> on
      integers, which rounds down for negative budgets as well. The divisor is 0 only
      for the empty text under a negative budget: there the source gets \<open>NaN\<close>,
      which \<open>substring\<close> reads as 0, and \<open>div\<close> by 0 is 0 as well.\<close>
  "validateAndAdjustTokens text maxTokens =
     (let estimatedTokens = estimateTokens text;
          reservedTokens = 2000;
          maxInputTokens = maxTokens - reservedTokens
      in if estimatedTokens \<le> maxInputTokens
         then \<lparr>isValid = True, adjustedText = None, estimatedTokens = estimatedTokens\<rparr>
         else
           let targetLength = (int (length text) * maxInputTokens) div estimatedTokens;
               adjusted = substring0 text targetLength @ js ''...''
           in \<lparr>isValid = False, adjustedText = Some adjusted,
               estimatedTokens = estimateTokens adjusted\<rparr>)"

section \<open>lib/ai/utils.ts: sanitizeText\<close>

fun replaceCRLF :: "jsstring \<Rightarrow> jsstring" where
  \<comment> \<open>\<open>.replace(/\r\n/g, '\n')\<close>\<close>
  "replaceCRLF (a # b # cs) =
     (if a = CR \<and> b = LF then LF # replaceCRLF cs else a # replaceCRLF (b # cs))"
| "replaceCRLF cs = cs"

fun expandTabs :: "jsstring \<Rightarrow> jsstring" where
  \<comment> \<open>\<open>.replace(/\t/g, '  ')\<close>\<close>
  "expandTabs [] = []"
| "expandTabs (c # cs) = (if c = TAB then SP # SP # expandTabs cs else c # expandTabs cs)"

fun wsThenNl :: "jsstring \<Rightarrow> nat option" where
  \<comment> \<open>the length of the match of \<open>\s*\n\<close> at the start of the text, greedy with
      backtracking: first try to take one more white-space character, and only if
      the rest then fails take the line feed here\<close>
  "wsThenNl [] = None"
| "wsThenNl (c # cs) =
     (if isSpace c
      then (case wsThenNl cs of
              Some k \<Rightarrow> Some (Suc k)
            | None \<Rightarrow> if c = LF then Some 1 else None)
      else None)"

function stripLineEndWs :: "jsstring \<Rightarrow> jsstring" where
  \<comment> \<open>\<open>.replace(/\s+\n/g, '\n')\<close>: scan from the left; where \<open>\s+\n\<close> matches,
      put one line feed and go on behind the match\<close>
  "stripLineEndWs [] = []"
| "stripLineEndWs (c # cs) =
     (if isSpace c
      then (case wsThenNl cs of
              Some k \<Rightarrow> LF # stripLineEndWs (drop k cs)
            | None \<Rightarrow> c # stripLineEndWs cs)
      else c # stripLineEndWs cs)"
  by pat_completeness auto
termination
  by (relation "measure length") auto

function collapseNewlines :: "jsstring \<Rightarrow> jsstring" where
  \<comment> \<open>\<open>.replace(/\n{3,}/g, '\n\n')\<close>: a run of at least three line feeds, taken
      whole, becomes two\<close>
  "collapseNewlines [] = []"
| "collapseNewlines (c # cs) =
     (let n = length (takeWhile (\<lambda>x. x = LF) (c # cs))
      in if 3 \<le> n then LF # LF # collapseNewlines (drop n (c # cs))
         else c # collapseNewlines cs)"
  by pat_completeness auto
termination
  by (relation "measure length") auto

definition normalizeText :: "jsstring \<Rightarrow> jsstring" where
  \<comment> \<open>the chain of \<open>sanitizeText\<close> before its final \<open>substring\<close>\<close>
  "normalizeText text =
     collapseNewlines (stripLineEndWs (expandTabs (replaceCRLF (trim text))))"

definition sanitizeText :: "jsstring \<Rightarrow> jsstring" where
  "sanitizeText text =
     (if text = [] then [] else substring0 (normalizeText text) 100000)"

section \<open>lib/ai/utils.ts: usage statistics\<close>

record APIUsageLog =
  timestamp :: int
  model :: jsstring
  inputTokens :: int
  outputTokens :: int
  latencyMs :: int
  success :: bool
  error :: "jsstring option"

record usage_stats =
  totalRequests :: nat
  successRate :: rat
  averageLatency :: rat
  totalTokens :: int
  averageTokensPerRequest :: rat

definition calculateUsageStats :: "APIUsageLog list \<Rightarrow> usage_stats" where
  "calculateUsageStats logs =
     (if length logs = 0
      then \<lparr>totalRequests = 0, successRate = 0, averageLatency = 0, totalTokens = 0,
            averageTokensPerRequest = 0\<rparr>
      else
        let successfulRequests = filter success logs;
            totalTokens = foldl (\<lambda>sum log. sum + inputTokens log + outputTokens log) 0 logs;
            totalLatency = foldl (\<lambda>sum log. sum + latencyMs log) 0 logs
        in \<lparr>totalRequests = length logs,
            successRate = (of_nat (length successfulRequests) / of_nat (length logs)) * 100,
            averageLatency = of_int totalLatency / of_nat (length logs),
            totalTokens = totalTokens,
            averageTokensPerRequest = of_int totalTokens / of_nat (length logs)\<rparr>)"

section \<open>lib/ai/errors.ts\<close>

datatype GeminiErrorType =
    API_KEY_INVALID | QUOTA_EXCEEDED | TIMEOUT | CONTENT_FILTERED | NETWORK_ERROR
  | RATE_LIMIT_EXCEEDED | TOKEN_LIMIT_EXCEEDED | INVALID_REQUEST | SERVICE_UNAVAILABLE
  | UNKNOWN

text \<open>
  What a \<open>catch\<close> clause can receive (\<open>error: unknown\<close>), as far as the code
  looks at it:
  \<^item> \<open>Undefined\<close> and \<open>Null\<close>: the two values that have no properties, so that
    reading \<open>error.message\<close> throws a \<open>TypeError\<close>;
  \<^item> \<open>Falsy s\<close>: any other value for which \<open>!error\<close> holds (\<open>0\<close>, \<open>NaN\<close>, \<open>false\<close>,
    the empty string), with the text \<open>String(error)\<close> gives;
  \<^item> \<open>GeminiErr type message originalError retryable\<close>: an instance of the class
    \<open>GeminiError\<close>;
  \<^item> \<open>ErrorObj name message status statusCode\<close>: any other instance of \<open>Error\<close>,
    with its \<open>status\<close> and \<open>statusCode\<close> where they are numbers;
  \<^item> \<open>OtherValue message status statusCode s\<close>: any other value, with its
    \<open>message\<close> where that is a string, the two status fields where they are
    numbers, and the text \<open>String(error)\<close> gives.
  Status codes are integers. Values whose conversion to a string throws (a symbol,
  an object without \<open>toString\<close>) are left out.
\<close>

datatype js_value =
    Undefined
  | Null
  | Falsy jsstring
  | GeminiErr GeminiErrorType jsstring "js_value option" bool
  | ErrorObj jsstring jsstring "int option" "int option"
  | OtherValue "jsstring option" "int option" "int option" jsstring

definition newGeminiError :: "GeminiErrorType \<Rightarrow> jsstring \<Rightarrow> js_value" where
  \<comment> \<open>\<open>new GeminiError(type, message)\<close>: the constructor's \<open>retryable\<close> defaults to
      \<open>false\<close>\<close>
  "newGeminiError t m = GeminiErr t m None False"

definition newGeminiErrorFrom :: "GeminiErrorType \<Rightarrow> jsstring \<Rightarrow> js_value \<Rightarrow> js_value" where
  \<comment> \<open>\<open>new GeminiError(type, message, originalError)\<close>\<close>
  "newGeminiErrorFrom t m orig = GeminiErr t m (Some orig) False"

fun isRetryable :: "js_value \<Rightarrow> bool" where
  \<comment> \<open>the method \<open>GeminiError.isRetryable\<close>\<close>
  "isRetryable (GeminiErr t m orig retryable) =
     (retryable \<and> t \<in> set [TIMEOUT, NETWORK_ERROR, SERVICE_UNAVAILABLE])"
| "isRetryable _ = False"

fun instanceofGeminiError :: "js_value \<Rightarrow> bool" where
  "instanceofGeminiError (GeminiErr t m orig r) = True"
| "instanceofGeminiError _ = False"

fun instanceofError :: "js_value \<Rightarrow> bool" where
  "instanceofError (GeminiErr t m orig r) = True"
| "instanceofError (ErrorObj n m st sc) = True"
| "instanceofError _ = False"

fun nameOf :: "js_value \<Rightarrow> jsstring" where
  \<comment> \<open>\<open>error.name\<close> of an instance of \<open>Error\<close>\<close>
  "nameOf (GeminiErr t m orig r) = js ''GeminiError''"
| "nameOf (ErrorObj n m st sc) = n"
| "nameOf _ = []"

fun messageOf :: "js_value \<Rightarrow> jsstring" where
  \<comment> \<open>\<open>typeof errorObj?.message === 'string' ? errorObj.message : ''\<close>\<close>
  "messageOf (GeminiErr t m orig r) = m"
| "messageOf (ErrorObj n m st sc) = m"
| "messageOf (OtherValue m st sc s) = (case m of Some x \<Rightarrow> x | None \<Rightarrow> [])"
| "messageOf _ = []"

fun statusOf :: "js_value \<Rightarrow> int option" where
  \<comment> \<open>\<open>status\<close> if it is a number, else \<open>statusCode\<close> if it is a number, else
      \<open>undefined\<close>\<close>
  "statusOf (ErrorObj n m st sc) = (case st of Some x \<Rightarrow> Some x | None \<Rightarrow> sc)"
| "statusOf (OtherValue m st sc s) = (case st of Some x \<Rightarrow> Some x | None \<Rightarrow> sc)"
| "statusOf _ = None"

fun isFalsy :: "js_value \<Rightarrow> bool" where
  \<comment> \<open>\<open>!error\<close>\<close>
  "isFalsy Undefined = True"
| "isFalsy Null = True"
| "isFalsy (Falsy s) = True"
| "isFalsy _ = False"

fun isNullish :: "js_value \<Rightarrow> bool" where
  \<comment> \<open>\<open>undefined\<close> or \<open>null\<close>\<close>
  "isNullish Undefined = True"
| "isNullish Null = True"
| "isNullish _ = False"

text \<open>
  \<open>String.prototype.toLowerCase\<close> follows the case mappings of the Unicode version
  the engine implements, a table that is not part of this repository. The
  functions that call it take it as their first argument \<open>toLowerCase\<close>; what is
  proved about them holds for every such function. \<open>asciiLower\<close> is what every
  version does on ASCII text, and \<open>lowercases_ascii\<close> says that a function agrees
  with it there.
\<close>

type_synonym lowercase = "jsstring \<Rightarrow> jsstring"

definition asciiLower :: lowercase where
  "asciiLower s = map (\<lambda>c. if 0x41 \<le> c \<and> c \<le> 0x5A then c + 0x20 else c) s"

definition isAscii :: "jsstring \<Rightarrow> bool" where
  "isAscii s = list_all (\<lambda>c. c < 0x80) s"

definition lowercases_ascii :: "lowercase \<Rightarrow> bool" where
  "lowercases_ascii toLowerCase = (\<forall>s. isAscii s \<longrightarrow> toLowerCase s = asciiLower s)"

fun str_includes :: "jsstring \<Rightarrow> jsstring \<Rightarrow> bool" where
  \<comment> \<open>\<open>s.includes(t)\<close>\<close>
  "str_includes [] t = (t = [])"
| "str_includes (c # cs) t = (take (length t) (c # cs) = t \<or> str_includes cs t)"

definition inferErrorType :: "lowercase \<Rightarrow> js_value \<Rightarrow> GeminiErrorType" where
  "inferErrorType toLowerCase err =
     (if isFalsy err then UNKNOWN
      else
        let message = toLowerCase (messageOf err);
            status = statusOf err
        in if status = Some 401 \<or> str_includes message (js ''unauthorized'')
              \<or> str_includes message (js ''api key'')
           then API_KEY_INVALID
           else if status = Some 429 \<or> str_includes message (js ''quota'')
              \<or> str_includes message (js ''rate limit'')
           then (if str_includes message (js ''quota'') then QUOTA_EXCEEDED
                 else RATE_LIMIT_EXCEEDED)
           else if status = Some 400 \<or> str_includes message (js ''invalid'')
           then INVALID_REQUEST
           else if (case status of Some st \<Rightarrow> 500 \<le> st | None \<Rightarrow> False)
              \<or> str_includes message (js ''service unavailable'')
              \<or> str_includes message (js ''internal server'')
           then SERVICE_UNAVAILABLE
           else if str_includes message (js ''timeout'') \<or> str_includes message (js ''timed out'')
           then TIMEOUT
           else if str_includes message (js ''content'') \<and> str_includes message (js ''filter'')
           then CONTENT_FILTERED
           else if str_includes message (js ''network'') \<or> str_includes message (js ''connection'')
           then NETWORK_ERROR
           else if str_includes message (js ''token'') \<and> str_includes message (js ''limit'')
           then TOKEN_LIMIT_EXCEEDED
           else UNKNOWN)"

definition isNonRetryableError :: "lowercase \<Rightarrow> js_value \<Rightarrow> bool" where
  "isNonRetryableError toLowerCase err =
     (if instanceofGeminiError err then \<not> isRetryable err
      else inferErrorType toLowerCase err \<in>
             set [API_KEY_INVALID, CONTENT_FILTERED, TOKEN_LIMIT_EXCEEDED, INVALID_REQUEST])"

definition errorToString :: "jsstring \<Rightarrow> jsstring \<Rightarrow> jsstring" where
  \<comment> \<open>\<open>Error.prototype.toString\<close>\<close>
  "errorToString name msg =
     (if name = [] then msg else if msg = [] then name else name @ js '': '' @ msg)"

fun toStr :: "js_value \<Rightarrow> jsstring" where
  \<comment> \<open>\<open>String(error)\<close>, also what a template literal inserts\<close>
  "toStr Undefined = js ''undefined''"
| "toStr Null = js ''null''"
| "toStr (Falsy s) = s"
| "toStr (GeminiErr t m orig r) = errorToString (js ''GeminiError'') m"
| "toStr (ErrorObj n m st sc) = errorToString n m"
| "toStr (OtherValue m st sc s) = s"

definition cannotReadMessage :: "js_value \<Rightarrow> js_value" where
  \<comment> \<open>the \<open>TypeError\<close> thrown for \<open>v.message\<close> when \<open>v\<close> is \<open>undefined\<close> or \<open>null\<close>
      (message text as V8 words it)\<close>
  "cannotReadMessage v =
     ErrorObj (js ''TypeError'')
       (js ''Cannot read properties of '' @ toStr v @ js '' (reading '' @ [0x27] @
        js ''message'' @ [0x27] @ js '')'') None None"

section \<open>lib/ai/utils.ts: withRetry\<close>

text \<open>
  A promise settles with a value or with a thrown value. The operation handed to
  \<open>withRetry\<close> is a closure that may answer differently each time it is called:
  \<open>operation n\<close> is how its \<open>n\<close>-th invocation (from 1) settles. \<open>random n\<close> is
  what \<open>Math.random()\<close> returns after the \<open>n\<close>-th failed attempt. \<open>maxRetries\<close> is a
  count: a number below 1 behaves as 0 does (the loop body never runs).
  The run records how the promise of \<open>withRetry\<close> settles, how often the operation
  was invoked and the delays slept in between.

  After the sleep the loop logs \<open>lastError.message\<close>. For an operation that rejected
  with \<open>undefined\<close> or \<open>null\<close> that read throws a \<open>TypeError\<close> inside the \<open>catch\<close>
  block, which ends \<open>withRetry\<close>.
\<close>

datatype 'a outcome = Resolved 'a | Rejected js_value

record 'a retry_run =
  settled :: "'a outcome"
  invocations :: nat
  delays :: "rat list"

function withRetry_loop ::
  "lowercase \<Rightarrow> (nat \<Rightarrow> 'a outcome) \<Rightarrow> nat \<Rightarrow> rat \<Rightarrow> (nat \<Rightarrow> rat) \<Rightarrow>
   nat \<Rightarrow> nat \<Rightarrow> js_value \<Rightarrow> rat list \<Rightarrow> 'a retry_run" where
  "withRetry_loop toLowerCase operation maxRetries baseBackoffMs random attempt calls
     lastError slept =
     (if attempt \<le> maxRetries
      then (case operation (Suc calls) of
              Resolved v \<Rightarrow> \<lparr>settled = Resolved v, invocations = Suc calls, delays = slept\<rparr>
            | Rejected e \<Rightarrow>
                if isNonRetryableError toLowerCase e
                then \<lparr>settled = Rejected e, invocations = Suc calls, delays = slept\<rparr>
                else if attempt \<ge> maxRetries
                then \<lparr>settled = Rejected e, invocations = Suc calls, delays = slept\<rparr>
                else
                  let backoffMs = baseBackoffMs * 2 ^ (attempt - 1);
                      jitter = random attempt * 0.3 * backoffMs
                  in if isNullish e
                     then \<lparr>settled = Rejected (cannotReadMessage e), invocations = Suc calls,
                           delays = slept @ [backoffMs + jitter]\<rparr>
                     else withRetry_loop toLowerCase operation maxRetries baseBackoffMs random
                            (attempt + 1) (Suc calls) e (slept @ [backoffMs + jitter]))
      else \<lparr>settled = Rejected lastError, invocations = calls, delays = slept\<rparr>)"
  by pat_completeness auto
termination
  by (relation "measure (\<lambda>(toLowerCase, operation, maxRetries, baseBackoffMs, random, attempt,
                  rest). Suc maxRetries - attempt)") auto

declare withRetry_loop.simps [simp del]

definition withRetry ::
  "lowercase \<Rightarrow> (nat \<Rightarrow> 'a outcome) \<Rightarrow> nat \<Rightarrow> rat \<Rightarrow> (nat \<Rightarrow> rat) \<Rightarrow> 'a retry_run" where
  \<comment> \<open>\<open>let lastError\<close> starts as \<open>undefined\<close>; the loop starts at attempt 1\<close>
  "withRetry toLowerCase operation maxRetries baseBackoffMs random =
     withRetry_loop toLowerCase operation maxRetries baseBackoffMs random 1 0 Undefined []"

section \<open>lib/ai/config.ts\<close>

record AIConfig =
  apiKey :: "jsstring option"
  aiModel :: jsstring
  configMaxTokens :: int
  timeout :: int
  debug :: bool
  rateLimitPerMinute :: int

definition joinLines :: "jsstring list \<Rightarrow> jsstring" where
  \<comment> \<open>\<open>errors.join('\n')\<close>\<close>
  "joinLines xs = (case xs of [] \<Rightarrow> [] | y # ys \<Rightarrow> foldl (\<lambda>acc x. acc @ [LF] @ x) y ys)"

definition validateConfig :: "AIConfig \<Rightarrow> unit outcome" where
  "validateConfig config =
     (let errors =
            (if apiKey config = None \<or> apiKey config = Some []
             then [js ''GEMINI_API_KEY is required''] else []) @
            (if configMaxTokens config \<le> 0 \<or> configMaxTokens config > 50000
             then [js ''GEMINI_MAX_TOKENS must be between 1 and 50000''] else []) @
            (if timeout config \<le> 0 \<or> timeout config > 60000
             then [js ''GEMINI_TIMEOUT_MS must be between 1 and 60000''] else []) @
            (if rateLimitPerMinute config \<le> 0 \<or> rateLimitPerMinute config > 1000
             then [js ''GEMINI_RATE_LIMIT must be between 1 and 1000''] else [])
      in if length errors > 0
         then Rejected (ErrorObj (js ''Error'')
                (js ''Gemini configuration errors:'' @ [LF] @ joinLines errors) None None)
         else Resolved ())"

definition getGeminiConfig :: "AIConfig \<Rightarrow> AIConfig outcome" where
  \<comment> \<open>the argument is the configuration as read (and parsed) from the environment\<close>
  "getGeminiConfig config =
     (case validateConfig config of Rejected e \<Rightarrow> Rejected e | Resolved u \<Rightarrow> Resolved config)"

section \<open>lib/ai/gemini-client.ts\<close>

record GeminiRequestOptions =
  prompt :: jsstring
  maxTokens :: "int option"
  temperature :: "rat option"
  topP :: "rat option"
  stopSequences :: "jsstring list option"

record SafetyRating =
  category :: jsstring
  probability :: jsstring

record TokenUsage =
  tokens_input :: int
  tokens_output :: int
  tokens_total :: int

record GeminiResponse =
  resp_text :: jsstring
  tokens :: TokenUsage
  finishReason :: jsstring
  safetyRatings :: "SafetyRating list option"

record api_call_result =
  call_text :: jsstring
  call_finishReason :: jsstring
  call_safetyRatings :: "SafetyRating list option"

record GeminiClient =
  config :: AIConfig
  initialized :: bool

definition newGeminiClient :: "AIConfig \<Rightarrow> GeminiClient outcome" where
  \<comment> \<open>the constructor: \<open>getGeminiConfig\<close> may throw; \<open>init\<close> then sets \<open>initialized\<close>\<close>
  "newGeminiClient env =
     (case getGeminiConfig env of
        Rejected e \<Rightarrow> Rejected e
      | Resolved cfg \<Rightarrow> Resolved \<lparr>config = cfg, initialized = True\<rparr>)"

definition getGeminiClient ::
  "GeminiClient option \<Rightarrow> AIConfig \<Rightarrow> GeminiClient outcome \<times> GeminiClient option" where
  \<comment> \<open>the module variable \<open>clientInstance\<close> is passed in and returned\<close>
  "getGeminiClient clientInstance env =
     (case clientInstance of
        Some c \<Rightarrow> (Resolved c, Some c)
      | None \<Rightarrow>
         (case newGeminiClient env of
            Rejected e \<Rightarrow> (Rejected e, None)
          | Resolved c \<Rightarrow> (Resolved c, Some c)))"

definition digit :: "nat \<Rightarrow> code_unit" where
  "digit d = 0x30 + of_nat d"

function showNat :: "nat \<Rightarrow> jsstring" where
  "showNat n = (if n < 10 then [digit n] else showNat (n div 10) @ [digit (n mod 10)])"
  by pat_completeness auto
termination
  by (relation "measure id") auto

declare showNat.simps [simp del]

definition showInt :: "int \<Rightarrow> jsstring" where
  \<comment> \<open>an integer inside a template literal\<close>
  "showInt i = (if i < 0 then js ''-'' @ showNat (nat (- i)) else showNat (nat i))"

definition makeAPICall_catch :: "AIConfig \<Rightarrow> js_value \<Rightarrow> api_call_result outcome" where
  \<comment> \<open>the \<open>catch\<close> block of \<open>makeAPICall\<close>\<close>
  "makeAPICall_catch cfg err =
     (if instanceofError err \<and> nameOf err = js ''AbortError''
      then Rejected (newGeminiError TIMEOUT
             (js ''Request timed out after '' @ showInt (timeout cfg) @ js ''ms''))
      else Rejected err)"

definition makeAPICall :: "AIConfig \<Rightarrow> jsstring option outcome \<Rightarrow> api_call_result outcome" where
  \<comment> \<open>\<open>remote\<close> is how the call \<open>generateContent\<close> of the SDK settles for this
      request: resolved with the \<open>text\<close> of the response (\<open>None\<close> when it has none),
      or rejected. A throw inside \<open>try\<close> goes through the \<open>catch\<close> block.\<close>
  "makeAPICall cfg remote =
     (case remote of
        Resolved response_text \<Rightarrow>
          (case response_text of
             None \<Rightarrow> makeAPICall_catch cfg (newGeminiError CONTENT_FILTERED
                       (js ''No text generated - content may have been filtered''))
           | Some t \<Rightarrow>
               if t = []
               then makeAPICall_catch cfg (newGeminiError CONTENT_FILTERED
                      (js ''No text generated - content may have been filtered''))
               else Resolved \<lparr>call_text = t, call_finishReason = js ''STOP'',
                              call_safetyRatings = None\<rparr>)
      | Rejected err \<Rightarrow> makeAPICall_catch cfg err)"

definition orElse :: "int option \<Rightarrow> int \<Rightarrow> int" where
  \<comment> \<open>\<open>a || b\<close> on an optional number: \<open>undefined\<close> and \<open>0\<close> are falsy\<close>
  "orElse a b = (case a of None \<Rightarrow> b | Some x \<Rightarrow> if x = 0 then b else x)"

definition generateText ::
  "lowercase \<Rightarrow> GeminiClient \<Rightarrow> GeminiRequestOptions \<Rightarrow> (nat \<Rightarrow> jsstring option outcome) \<Rightarrow>
   (nat \<Rightarrow> rat) \<Rightarrow> int \<Rightarrow> int \<Rightarrow> GeminiResponse outcome \<times> APIUsageLog option" where
  \<comment> \<open>\<open>remote n\<close> is how the \<open>n\<close>-th call of the SDK settles, \<open>now\<close> the time of the
      call and \<open>elapsed\<close> what the timer reads when stopped. The second component
      is the record handed to \<open>logAPIUsage\<close>.\<close>
  "generateText toLowerCase client options remote random now elapsed =
     (if \<not> initialized client
      then (Rejected (newGeminiError API_KEY_INVALID (js ''Client not initialized'')), None)
      else
        let sanitizedPrompt = sanitizeText (prompt options);
            tokenValidation = validateAndAdjustTokens sanitizedPrompt
                                (orElse (maxTokens options) (configMaxTokens (config client)));
            finalPrompt = (case adjustedText tokenValidation of
                             None \<Rightarrow> sanitizedPrompt
                           | Some a \<Rightarrow> if a = [] then sanitizedPrompt else a);
            inputTokens = estimateTokens finalPrompt;
            log = \<lparr>timestamp = now, model = aiModel (config client),
                   inputTokens = inputTokens, outputTokens = 0, latencyMs = 0,
                   success = False, error = None\<rparr>;
            run = withRetry toLowerCase (\<lambda>n. makeAPICall (config client) (remote n))
                    3 1000 random
        in case settled run of
             Resolved response \<Rightarrow>
               let outputTokens = estimateTokens (call_text response)
               in (Resolved \<lparr>resp_text = call_text response,
                     tokens = \<lparr>tokens_input = inputTokens, tokens_output = outputTokens,
                                tokens_total = inputTokens + outputTokens\<rparr>,
                     finishReason = (if call_finishReason response = [] then js ''STOP''
                                     else call_finishReason response),
                     safetyRatings = call_safetyRatings response\<rparr>,
                   Some (log\<lparr>outputTokens := outputTokens, latencyMs := elapsed,
                              success := True\<rparr>))
           | Rejected err \<Rightarrow>
               (if instanceofGeminiError err then Rejected err
                else Rejected (newGeminiErrorFrom (inferErrorType toLowerCase err)
                       (js ''API call failed: '' @ toStr err) err),
                Some (log\<lparr>latencyMs := elapsed,
                           error := Some (if instanceofError err then messageOf err
                                          else toStr err),
                           success := False\<rparr>)))"

definition healthProbe :: GeminiRequestOptions where
  \<comment> \<open>the request \<open>healthCheck\<close> sends\<close>
  "healthProbe = \<lparr>prompt = js ''Hello'', maxTokens = Some 10, temperature = None,
                   topP = None, stopSequences = None\<rparr>"

definition healthCheck_try :: "GeminiResponse outcome \<Rightarrow> bool outcome" where
  \<comment> \<open>the \<open>try\<close>/\<open>catch\<close> of \<open>healthCheck\<close> around the awaited probe\<close>
  "healthCheck_try probe =
     (case probe of
        Resolved result \<Rightarrow> Resolved (length (resp_text result) > 0)
      | Rejected err \<Rightarrow> Resolved False)"

definition healthCheck ::
  "lowercase \<Rightarrow> GeminiClient \<Rightarrow> (nat \<Rightarrow> jsstring option outcome) \<Rightarrow> (nat \<Rightarrow> rat) \<Rightarrow> int \<Rightarrow> int \<Rightarrow>
   bool outcome" where
  "healthCheck toLowerCase client remote random now elapsed =
     healthCheck_try
       (fst (generateText toLowerCase client healthProbe remote random now elapsed))"

definition checkGeminiHealth ::
  "lowercase \<Rightarrow> GeminiClient option \<Rightarrow> AIConfig \<Rightarrow> (nat \<Rightarrow> jsstring option outcome) \<Rightarrow> (nat \<Rightarrow> rat) \<Rightarrow>
   int \<Rightarrow> int \<Rightarrow> bool outcome" where
  "checkGeminiHealth toLowerCase clientInstance env remote random now elapsed =
     (case fst (getGeminiClient clientInstance env) of
        Rejected err \<Rightarrow> Resolved False
      | Resolved client \<Rightarrow>
          (case healthCheck toLowerCase client remote random now elapsed of
             Resolved b \<Rightarrow> Resolved b
           | Rejected err \<Rightarrow> Resolved False))"

section \<open>Definitions used to state the properties\<close>

definition isDenseScript :: "code_unit \<Rightarrow> bool" where
  \<comment> \<open>the dense scripts of the specification, "the logographic/syllabic ranges of
      CJK-family text": kana (U+3040 to U+30FF), the unified Han ideographs (U+4E00 to
      U+9FFF) and the Hangul syllables (U+AC00 to U+D7A3)\<close>
  "isDenseScript c \<longleftrightarrow>
     (0x3040 \<le> c \<and> c \<le> 0x30FF) \<or> (0x4E00 \<le> c \<and> c \<le> 0x9FFF) \<or>
     (0xAC00 \<le> c \<and> c \<le> 0xD7A3)"

definition tokenCost :: "(code_unit \<Rightarrow> bool) \<Rightarrow> code_unit \<Rightarrow> rat" where
  \<comment> \<open>the price list: a character of the dense class costs one token per 2.5
      characters, any other character one token per 4\<close>
  "tokenCost dense c = (if dense c then 1 / 2.5 else 1 / 4)"

definition estimate_by :: "(code_unit \<Rightarrow> bool) \<Rightarrow> jsstring \<Rightarrow> int" where
  \<comment> \<open>the estimate in the words of the specification, for a given dense class: 0 for
      the empty text, else the sum of the costs, rounded up, and at least 1\<close>
  "estimate_by dense t = (if t = [] then 0 else max 1 \<lceil>sum_list (map (tokenCost dense) t)\<rceil>)"

definition estimate_spec :: "jsstring \<Rightarrow> int" where
  \<comment> \<open>the estimate of the specification, with its dense scripts\<close>
  "estimate_spec t = estimate_by isDenseScript t"

definition annyeonghaseyo :: jsstring where
  \<comment> \<open>the five Hangul syllables of the specification's example\<close>
  "annyeonghaseyo = [0xC548, 0xB155, 0xD558, 0xC138, 0xC694]"

definition ten_ideographs :: jsstring where
  \<comment> \<open>ten times the Han ideograph U+4E00\<close>
  "ten_ideographs = replicate 10 0x4E00"

definition ten_kana :: jsstring where
  \<comment> \<open>ten times the hiragana letter U+3042\<close>
  "ten_kana = replicate 10 0x3042"

definition network_down :: js_value where
  \<comment> \<open>an untyped connection failure, as a transport may throw it\<close>
  "network_down = ErrorObj (js ''Error'') (js ''Network down'') None None"

definition bad_key :: js_value where
  \<comment> \<open>an untyped rejection of the API key with HTTP status 400\<close>
  "bad_key = ErrorObj (js ''Error'') (js ''API key not valid'') (Some 400) None"

definition abort_error :: js_value where
  \<comment> \<open>the \<open>AbortError\<close> an aborted request is rejected with\<close>
  "abort_error = ErrorObj (js ''AbortError'') (js ''This operation was aborted'') None None"

definition timeout_error :: "AIConfig \<Rightarrow> js_value" where
  \<comment> \<open>the error \<open>makeAPICall\<close> raises for it\<close>
  "timeout_error cfg =
     newGeminiError TIMEOUT (js ''Request timed out after '' @ showInt (timeout cfg) @ js ''ms'')"

definition untyped_timeout :: js_value where
  \<comment> \<open>a timeout that reaches \<open>withRetry\<close> as a plain \<open>Error\<close>\<close>
  "untyped_timeout = ErrorObj (js ''Error'') (js ''Request timeout'') None None"

definition retried :: "lowercase \<Rightarrow> js_value \<Rightarrow> bool" where
  \<comment> \<open>a failure after which the loop goes on, given that attempts are left: retryable,
      and its \<open>message\<close> can be read for the log\<close>
  "retried toLowerCase e = (\<not> isNonRetryableError toLowerCase e \<and> \<not> isNullish e)"

definition decisive :: "lowercase \<Rightarrow> 'a outcome \<Rightarrow> bool" where
  \<comment> \<open>an attempt that ends the retry loop: a success or a non-retryable failure\<close>
  "decisive toLowerCase r =
     (case r of Resolved v \<Rightarrow> True | Rejected e \<Rightarrow> isNonRetryableError toLowerCase e)"

definition mentions :: "lowercase \<Rightarrow> js_value \<Rightarrow> string \<Rightarrow> bool" where
  \<comment> \<open>the test \<open>message.includes(s)\<close> of \<open>inferErrorType\<close> on the lower-cased message\<close>
  "mentions toLowerCase err s = str_includes (toLowerCase (messageOf err)) (js s)"

definition status_rule_hit :: "js_value \<Rightarrow> bool" where
  \<comment> \<open>the status code is one that \<open>inferErrorType\<close> tests for\<close>
  "status_rule_hit err =
     (case statusOf err of Some st \<Rightarrow> st = 401 \<or> st = 429 \<or> st = 400 \<or> 500 \<le> st | None \<Rightarrow> False)"

text \<open>
  A classification rule: a test on the status code, alternatives of phrases looked
  for in the lower-cased message (all phrases of one alternative must occur), and the
  kind it assigns.
\<close>

record rule =
  rule_status :: "int \<Rightarrow> bool"
  rule_phrases :: "string list list"
  rule_kind :: GeminiErrorType

definition rule_applies :: "lowercase \<Rightarrow> js_value \<Rightarrow> rule \<Rightarrow> bool" where
  \<comment> \<open>a rule applies when its status test holds or all phrases of one of its
      alternatives occur in the lower-cased message\<close>
  "rule_applies toLowerCase err r =
     ((case statusOf err of Some st \<Rightarrow> rule_status r st | None \<Rightarrow> False) \<or>
      list_ex (\<lambda>alt. list_all (mentions toLowerCase err) alt) (rule_phrases r))"

fun first_match :: "lowercase \<Rightarrow> js_value \<Rightarrow> rule list \<Rightarrow> GeminiErrorType" where
  \<comment> \<open>the first rule that applies decides; \<open>UNKNOWN\<close> when none does\<close>
  "first_match toLowerCase err [] = UNKNOWN"
| "first_match toLowerCase err (r # rs) =
     (if rule_applies toLowerCase err r then rule_kind r else first_match toLowerCase err rs)"

definition classification_rules :: "rule list" where
  \<comment> \<open>the rules in their fixed order\<close>
  "classification_rules =
     [\<lparr>rule_status = (\<lambda>st. st = 401), rule_phrases = [[''unauthorized''], [''api key'']],
       rule_kind = API_KEY_INVALID\<rparr>,
      \<lparr>rule_status = (\<lambda>st. False), rule_phrases = [[''quota'']],
       rule_kind = QUOTA_EXCEEDED\<rparr>,
      \<lparr>rule_status = (\<lambda>st. st = 429), rule_phrases = [[''rate limit'']],
       rule_kind = RATE_LIMIT_EXCEEDED\<rparr>,
      \<lparr>rule_status = (\<lambda>st. st = 400), rule_phrases = [[''invalid'']],
       rule_kind = INVALID_REQUEST\<rparr>,
      \<lparr>rule_status = (\<lambda>st. 500 \<le> st),
       rule_phrases = [[''service unavailable''], [''internal server'']],
       rule_kind = SERVICE_UNAVAILABLE\<rparr>,
      \<lparr>rule_status = (\<lambda>st. False), rule_phrases = [[''timeout''], [''timed out'']],
       rule_kind = TIMEOUT\<rparr>,
      \<lparr>rule_status = (\<lambda>st. False), rule_phrases = [[''content'', ''filter'']],
       rule_kind = CONTENT_FILTERED\<rparr>,
      \<lparr>rule_status = (\<lambda>st. False), rule_phrases = [[''network''], [''connection'']],
       rule_kind = NETWORK_ERROR\<rparr>,
      \<lparr>rule_status = (\<lambda>st. False), rule_phrases = [[''token'', ''limit'']],
       rule_kind = TOKEN_LIMIT_EXCEEDED\<rparr>]"

definition classify_by_rules :: "lowercase \<Rightarrow> js_value \<Rightarrow> GeminiErrorType" where
  \<comment> \<open>the classification as a rule table\<close>
  "classify_by_rules toLowerCase err =
     (if isFalsy err then UNKNOWN else first_match toLowerCase err classification_rules)"

definition classified_as :: "js_value \<Rightarrow> GeminiErrorType \<Rightarrow> bool" where
  \<comment> \<open>the error is classified as \<open>k\<close> whatever the engine's \<open>toLowerCase\<close> does
      outside ASCII\<close>
  "classified_as err k =
     (\<forall>toLowerCase. lowercases_ascii toLowerCase \<longrightarrow> inferErrorType toLowerCase err = k)"

definition rate_limited :: js_value where
  \<comment> \<open>status 429 with a message of the rate-limit rule\<close>
  "rate_limited = ErrorObj (js ''Error'') (js ''Rate limit exceeded'') (Some 429) None"

definition quota_and_rate :: js_value where
  \<comment> \<open>a message that mentions both the quota and the rate limit, no status\<close>
  "quota_and_rate = ErrorObj (js ''Error'') (js ''Rate limit: quota exceeded'') None None"

definition network_timeout :: js_value where
  \<comment> \<open>a message that mentions both a timeout and the network, no status\<close>
  "network_timeout = ErrorObj (js ''Error'') (js ''Network timeout'') None None"

definition gateway_timeout :: js_value where
  \<comment> \<open>status 504 (in \<open>statusCode\<close>) with a message of the timeout rule\<close>
  "gateway_timeout = ErrorObj (js ''Error'') (js ''Gateway timeout'') None (Some 504)"

definition unauthorized_429 :: js_value where
  \<comment> \<open>status 429 with a message of the API-key rule\<close>
  "unauthorized_429 = ErrorObj (js ''Error'') (js ''Unauthorized'') (Some 429) None"

definition plain_429 :: js_value where
  \<comment> \<open>status 429 with a message no rule looks for\<close>
  "plain_429 = ErrorObj (js ''Error'') (js ''Too Many Requests'') (Some 429) None"

definition quota_503 :: js_value where
  \<comment> \<open>status 503 with a message of the quota rule\<close>
  "quota_503 = ErrorObj (js ''Error'') (js ''Quota exhausted'') (Some 503) None"

definition plain_503 :: js_value where
  \<comment> \<open>status 503 with a message no rule looks for\<close>
  "plain_503 = ErrorObj (js ''Error'') (js ''Bad gateway'') (Some 503) None"

definition no_text :: "jsstring option outcome \<Rightarrow> bool" where
  \<comment> \<open>the remote call resolves, with a missing or an empty text\<close>
  "no_text r = (r = Resolved None \<or> r = Resolved (Some []))"

definition content_filtered_error :: js_value where
  \<comment> \<open>the error \<open>makeAPICall\<close> raises for it\<close>
  "content_filtered_error =
     newGeminiError CONTENT_FILTERED (js ''No text generated - content may have been filtered'')"

definition demo_config :: AIConfig where
  \<comment> \<open>a valid configuration, with the defaults of \<open>config.ts\<close>\<close>
  "demo_config = \<lparr>apiKey = Some (js ''key''), aiModel = js ''gemini-2.0-flash-001'',
     configMaxTokens = 8192, timeout = 10000, debug = False, rateLimitPerMinute = 60\<rparr>"

definition demo_client :: GeminiClient where
  \<comment> \<open>a client constructed from it\<close>
  "demo_client = \<lparr>config = demo_config, initialized = True\<rparr>"

definition flaky_then_empty :: "nat \<Rightarrow> jsstring option outcome" where
  \<comment> \<open>a remote whose first call fails at the connection and whose later calls
      return an empty text\<close>
  "flaky_then_empty n = (if n = 1 then Rejected network_down else Resolved (Some []))"

definition crlf_tabs_example :: jsstring where
  \<comment> \<open>\<open>"a\r\nb\t\tc\n\n\n\nd"\<close>\<close>
  "crlf_tabs_example = [0x61, CR, LF, 0x62, TAB, TAB, 0x63, LF, LF, LF, LF, 0x64]"

fun tidy :: "jsstring \<Rightarrow> bool" where
  \<comment> \<open>no white-space character is followed by white space that ends in a line feed:
      \<open>/\s+\n/\<close> matches nowhere\<close>
  "tidy [] = True"
| "tidy (c # cs) = ((\<not> isSpace c \<or> wsThenNl cs = None) \<and> tidy cs)"

definition starts_clean :: "jsstring \<Rightarrow> bool" where
  \<comment> \<open>the text does not start with white space\<close>
  "starts_clean s = (case s of [] \<Rightarrow> True | c # cs \<Rightarrow> \<not> isSpace c)"

definition ends_clean :: "jsstring \<Rightarrow> bool" where
  \<comment> \<open>the text does not end with white space\<close>
  "ends_clean s = (s = [] \<or> \<not> isSpace (last s))"

definition long_text :: jsstring where
  \<comment> \<open>99999 letters \<open>a\<close>, a space and a \<open>b\<close>: one character above the ceiling\<close>
  "long_text = replicate 99999 0x61 @ [SP, 0x62]"

section \<open>Token estimate\<close>

lemma neg_div20: "- ((- x) div 20) = (x + 19) div (20::int)"
  by linarith

lemma sum20: "(a :: rat) / 2.5 + b / 4 = (8 * a + 5 * b) / 20"
  by simp

lemma ceil_est:
  "\<lceil>(of_nat k :: rat) / 2.5 + of_nat e / 4\<rceil> = (8 * int k + 5 * int e + 19) div 20"
proof -
  have "(of_nat k :: rat) / 2.5 + of_nat e / 4 = of_int (8 * int k + 5 * int e) / of_int 20"
    unfolding sum20 by simp
  also have "\<lceil>\<dots>\<rceil> = - ((- (8 * int k + 5 * int e)) div 20)"
    by (simp only: ceiling_divide_eq_div)
  also have "\<dots> = (8 * int k + 5 * int e + 19) div 20"
    by (rule neg_div20)
  finally show ?thesis .
qed

lemma estimateTokens_int:
  "estimateTokens t =
     (if t = [] then 0
      else max 1 ((8 * int (length (filter isHangulSyllable t)) +
                   5 * int (length t - length (filter isHangulSyllable t)) + 19) div 20))"
  unfolding estimateTokens_def Let_def ceil_est by (rule refl)

lemma sum_cost_split:
  "sum_list (map (tokenCost dense) t) =
     of_nat (length (filter dense t)) * (2 / 5) +
     of_nat (length (filter (\<lambda>c. \<not> dense c) t)) * (1 / 4)"
proof (induction t)
  case Nil
  show ?case by simp
next
  case (Cons c cs)
  show ?case
  proof (cases "dense c")
    case True
    then have "tokenCost dense c = 2 / 5" by (simp add: tokenCost_def)
    with True show ?thesis by (simp add: Cons.IH algebra_simps)
  next
    case False
    then have "tokenCost dense c = 1 / 4" by (simp add: tokenCost_def)
    with False show ?thesis by (simp add: Cons.IH algebra_simps)
  qed
qed

lemma length_filter_not:
  "length (filter (\<lambda>c. \<not> P c) t) = length t - length (filter P t)"
  using sum_length_filter_compl [of P t] by simp

lemma sum_cost:
  "sum_list (map (tokenCost dense) t) =
     of_nat (length (filter dense t)) / 2.5 +
     of_nat (length t - length (filter dense t)) / 4"
  by (simp add: sum_cost_split length_filter_not)

lemma estimate_by_int:
  "estimate_by dense t =
     (if t = [] then 0
      else max 1 ((8 * int (length (filter dense t)) +
                   5 * int (length t - length (filter dense t)) + 19) div 20))"
  unfolding estimate_by_def sum_cost ceil_est by (rule refl)

lemma estimateTokens_hangul: "estimateTokens t = estimate_by isHangulSyllable t"
  by (simp add: estimateTokens_def estimate_by_def sum_cost Let_def)

text \<open>
  Claim C7, as stated, fails for the dense scripts other than Hangul: the code
  counts only the Hangul syllables at the dense rate. Ten Han ideographs, or ten kana,
  are estimated at 3 tokens (the rate of one per 4 characters); at one per 2.5
  characters the estimate is 4.
\<close>

theorem estimateTokens_ideographs_plain_rate:
  "estimateTokens ten_ideographs = 3 \<and> estimate_spec ten_ideographs = 4 \<and>
   estimateTokens ten_kana = 3 \<and> estimate_spec ten_kana = 4"
  by (simp add: estimateTokens_int estimate_spec_def estimate_by_int ten_ideographs_def
      ten_kana_def isHangulSyllable_def isDenseScript_def)

text \<open>
  Claim C7, amended. \<open>estimateTokens\<close> returns 0 for the empty text and otherwise the
  sum of the per-character costs, with the Hangul syllables U+AC00 to U+D7A3 at one
  token per 2.5 characters and every other character at one per 4, rounded up and at
  least 1. On a text whose dense-script characters are all Hangul syllables this is
  the estimate of the specification. \<open>"Hello"\<close> and the five syllables of the Korean
  greeting both give 2.
\<close>

theorem estimateTokens_hangul_rate:
  "estimateTokens [] = 0 \<and>
   estimateTokens t = estimate_by isHangulSyllable t \<and>
   (list_all (\<lambda>c. isDenseScript c \<longrightarrow> isHangulSyllable c) t \<longrightarrow>
      estimateTokens t = estimate_spec t) \<and>
   estimateTokens (js ''Hello'') = 2 \<and>
   estimateTokens annyeonghaseyo = 2"
proof (intro conjI impI)
  show "estimateTokens [] = 0" by (simp add: estimateTokens_def)
  show "estimateTokens t = estimate_by isHangulSyllable t" by (rule estimateTokens_hangul)
  show "estimateTokens (js ''Hello'') = 2"
    by (simp add: estimateTokens_int js_def isHangulSyllable_def)
  show "estimateTokens annyeonghaseyo = 2"
    by (simp add: estimateTokens_int annyeonghaseyo_def isHangulSyllable_def)
next
  assume a: "list_all (\<lambda>c. isDenseScript c \<longrightarrow> isHangulSyllable c) t"
  have "isHangulSyllable c \<Longrightarrow> isDenseScript c" for c
    by (simp add: isHangulSyllable_def isDenseScript_def)
  with a have "\<forall>c \<in> set t. isDenseScript c = isHangulSyllable c"
    by (auto simp: list_all_iff)
  then have "filter isDenseScript t = filter isHangulSyllable t"
    by (intro filter_cong) simp_all
  then show "estimateTokens t = estimate_spec t"
    by (simp add: estimateTokens_hangul estimate_spec_def estimate_by_int)
qed

theorem estimateTokens_hangul_rate_witness:
  "list_all (\<lambda>c. isDenseScript c \<longrightarrow> isHangulSyllable c) annyeonghaseyo \<and>
   estimateTokens annyeonghaseyo = estimate_spec annyeonghaseyo \<and>
   estimate_spec annyeonghaseyo = 2"
proof -
  have h: "list_all (\<lambda>c. isDenseScript c \<longrightarrow> isHangulSyllable c) annyeonghaseyo"
    by (simp add: annyeonghaseyo_def isHangulSyllable_def)
  with estimateTokens_hangul_rate [of annyeonghaseyo]
  have "estimateTokens annyeonghaseyo = estimate_spec annyeonghaseyo \<and>
        estimateTokens annyeonghaseyo = 2" by blast
  with h show ?thesis by simp
qed

section \<open>Usage statistics\<close>

text \<open>
  Claim C9. For the empty sequence of logs \<open>calculateUsageStats\<close> returns the record
  of zeros: the early return keeps the divisions by the length from being reached.
\<close>

theorem calculateUsageStats_empty:
  "calculateUsageStats [] =
     \<lparr>totalRequests = 0, successRate = 0, averageLatency = 0, totalTokens = 0,
      averageTokensPerRequest = 0\<rparr>"
  by (simp add: calculateUsageStats_def)

section \<open>Sanitizer\<close>

text \<open>
  Claim C2. On \<open>"a\r\nb\t\tc\n\n\n\nd"\<close> the sanitizer does not keep two line feeds
  before \<open>d\<close>: \<open>\s\<close> matches a line feed too, so \<open>/\s+\n/\<close> takes the whole run of
  four line feeds and leaves one; the result is \<open>"a\nb    c\nd"\<close>.
\<close>

theorem sanitizeText_example_one_newline:
  "sanitizeText crlf_tabs_example = [0x61, LF, 0x62, SP, SP, SP, SP, 0x63, LF, 0x64] \<and>
   sanitizeText crlf_tabs_example \<noteq> [0x61, LF, 0x62, SP, SP, SP, SP, 0x63, LF, LF, 0x64]"
  by (simp add: crlf_tabs_example_def sanitizeText_def normalizeText_def trim_def substring0_def
      isSpace_def CR_def LF_def TAB_def SP_def)

section \<open>Retry executor\<close>

lemma loop_stop:
  "maxRetries < attempt \<Longrightarrow>
   withRetry_loop lc operation maxRetries b random attempt calls lastError slept =
     \<lparr>settled = Rejected lastError, invocations = calls, delays = slept\<rparr>"
  by (subst withRetry_loop.simps) simp

lemma loop_resolved:
  "attempt \<le> maxRetries \<Longrightarrow> operation (Suc calls) = Resolved v \<Longrightarrow>
   withRetry_loop lc operation maxRetries b random attempt calls lastError slept =
     \<lparr>settled = Resolved v, invocations = Suc calls, delays = slept\<rparr>"
  by (subst withRetry_loop.simps) simp

lemma loop_fatal:
  "attempt \<le> maxRetries \<Longrightarrow> operation (Suc calls) = Rejected e \<Longrightarrow>
   isNonRetryableError lc e \<Longrightarrow>
   withRetry_loop lc operation maxRetries b random attempt calls lastError slept =
     \<lparr>settled = Rejected e, invocations = Suc calls, delays = slept\<rparr>"
  by (subst withRetry_loop.simps) simp

lemma loop_exhausted:
  "attempt = maxRetries \<Longrightarrow> operation (Suc calls) = Rejected e \<Longrightarrow>
   withRetry_loop lc operation maxRetries b random attempt calls lastError slept =
     \<lparr>settled = Rejected e, invocations = Suc calls, delays = slept\<rparr>"
  by (subst withRetry_loop.simps) simp

lemma loop_retry:
  "attempt < maxRetries \<Longrightarrow> operation (Suc calls) = Rejected e \<Longrightarrow> retried lc e \<Longrightarrow>
   withRetry_loop lc operation maxRetries b random attempt calls lastError slept =
     withRetry_loop lc operation maxRetries b random (attempt + 1) (Suc calls) e
       (slept @ [b * 2 ^ (attempt - 1) + random attempt * 0.3 * (b * 2 ^ (attempt - 1))])"
  by (subst withRetry_loop.simps) (simp add: Let_def retried_def)

lemma loop_warn_throws:
  "attempt < maxRetries \<Longrightarrow> operation (Suc calls) = Rejected e \<Longrightarrow>
   \<not> isNonRetryableError lc e \<Longrightarrow> isNullish e \<Longrightarrow>
   withRetry_loop lc operation maxRetries b random attempt calls lastError slept =
     \<lparr>settled = Rejected (cannotReadMessage e), invocations = Suc calls,
      delays = slept @ [b * 2 ^ (attempt - 1) + random attempt * 0.3 * (b * 2 ^ (attempt - 1))]\<rparr>"
  by (subst withRetry_loop.simps) (simp add: Let_def)

lemma loop_invocations_le:
  "invocations (withRetry_loop lc operation maxRetries b random attempt calls lastError slept)
     \<le> calls + (Suc maxRetries - attempt)"
proof (induction lc operation maxRetries b random attempt calls lastError slept
       rule: withRetry_loop.induct)
  case (1 lc operation maxRetries b random attempt calls lastError slept)
  show ?case
  proof (cases "attempt \<le> maxRetries")
    case False
    then show ?thesis by (simp add: loop_stop)
  next
    case le: True
    show ?thesis
    proof (cases "operation (Suc calls)")
      case (Resolved v)
      with le show ?thesis by (simp add: loop_resolved)
    next
      case (Rejected e)
      show ?thesis
      proof (cases "isNonRetryableError lc e")
        case True
        with le Rejected show ?thesis by (simp add: loop_fatal)
      next
        case nf: False
        show ?thesis
        proof (cases "attempt = maxRetries")
          case True
          with Rejected show ?thesis by (simp add: loop_exhausted)
        next
          case False
          with le have lt: "attempt < maxRetries" by simp
          show ?thesis
          proof (cases "isNullish e")
            case True
            with lt Rejected nf show ?thesis by (simp add: loop_warn_throws)
          next
            case nn: False
            have ge: "maxRetries \<le> attempt \<longleftrightarrow> False" using lt by simp
            note IH = "1.IH" [OF le Rejected nf, unfolded ge, OF _ refl refl nn]
            have "invocations (withRetry_loop lc operation maxRetries b random (attempt + 1)
                    (Suc calls) e
                    (slept @ [b * 2 ^ (attempt - 1) +
                              random attempt * 0.3 * (b * 2 ^ (attempt - 1))]))
                \<le> Suc calls + (Suc maxRetries - (attempt + 1))"
              using IH by simp
            then show ?thesis using lt Rejected nf nn by (simp add: loop_retry retried_def)
          qed
        qed
      qed
    qed
  qed
qed

lemma loop_all_retried:
  "(\<And>n. calls < n \<Longrightarrow> n \<le> calls + (Suc maxRetries - attempt) \<Longrightarrow>
      \<exists>e. operation n = Rejected e \<and> retried lc e) \<Longrightarrow>
   invocations (withRetry_loop lc operation maxRetries b random attempt calls lastError slept)
     = calls + (Suc maxRetries - attempt) \<and>
   (attempt \<le> maxRetries \<longrightarrow>
     settled (withRetry_loop lc operation maxRetries b random attempt calls lastError slept)
       = operation (calls + (Suc maxRetries - attempt)))"
proof (induction lc operation maxRetries b random attempt calls lastError slept
       rule: withRetry_loop.induct)
  case (1 lc operation maxRetries b random attempt calls lastError slept)
  show ?case
  proof (cases "attempt \<le> maxRetries")
    case False
    then show ?thesis by (simp add: loop_stop)
  next
    case le: True
    then have "calls < Suc calls" "Suc calls \<le> calls + (Suc maxRetries - attempt)" by simp_all
    from "1.prems" [OF this] obtain e where
      Rejected: "operation (Suc calls) = Rejected e" and re: "retried lc e"
      by blast
    from re have nf: "\<not> isNonRetryableError lc e" and nn: "\<not> isNullish e"
      by (simp_all add: retried_def)
    show ?thesis
    proof (cases "attempt = maxRetries")
      case True
      with Rejected show ?thesis by (simp add: loop_exhausted)
    next
      case False
      with le have lt: "attempt < maxRetries" by simp
      have ge: "maxRetries \<le> attempt \<longleftrightarrow> False" using lt by simp
      have step: "withRetry_loop lc operation maxRetries b random attempt calls lastError slept =
          withRetry_loop lc operation maxRetries b random (attempt + 1) (Suc calls) e
            (slept @ [b * 2 ^ (attempt - 1) + random attempt * 0.3 * (b * 2 ^ (attempt - 1))])"
        using lt Rejected re by (rule loop_retry)
      have cnt: "Suc calls + (Suc maxRetries - (attempt + 1)) = calls + (Suc maxRetries - attempt)"
        using lt by simp
      have pre: "\<exists>e. operation n = Rejected e \<and> retried lc e"
        if "Suc calls < n" "n \<le> Suc calls + (Suc maxRetries - (attempt + 1))" for n
        using that "1.prems" [of n] lt by simp
      note IH = "1.IH" [OF le Rejected nf, unfolded ge, OF _ refl refl nn, OF _ pre]
      have "invocations (withRetry_loop lc operation maxRetries b random (attempt + 1) (Suc calls) e
            (slept @ [b * 2 ^ (attempt - 1) + random attempt * 0.3 * (b * 2 ^ (attempt - 1))]))
          = Suc calls + (Suc maxRetries - (attempt + 1)) \<and>
         (attempt + 1 \<le> maxRetries \<longrightarrow>
          settled (withRetry_loop lc operation maxRetries b random (attempt + 1) (Suc calls) e
            (slept @ [b * 2 ^ (attempt - 1) + random attempt * 0.3 * (b * 2 ^ (attempt - 1))]))
          = operation (Suc calls + (Suc maxRetries - (attempt + 1))))"
        using IH by simp
      then show ?thesis unfolding step cnt using lt by simp
    qed
  qed
qed

lemma loop_settled_cases:
  "settled (withRetry_loop lc operation maxRetries b random attempt calls lastError slept) = r \<Longrightarrow>
   (maxRetries < attempt \<and> r = Rejected lastError) \<or>
   (\<exists>n. operation n = r) \<or>
   (\<exists>e. r = Rejected (cannotReadMessage e))"
proof (induction lc operation maxRetries b random attempt calls lastError slept
       rule: withRetry_loop.induct)
  case (1 lc operation maxRetries b random attempt calls lastError slept)
  show ?case
  proof (cases "attempt \<le> maxRetries")
    case False
    with "1.prems" show ?thesis by (simp add: loop_stop)
  next
    case le: True
    show ?thesis
    proof (cases "operation (Suc calls)")
      case (Resolved v)
      with le "1.prems" show ?thesis by (auto simp: loop_resolved)
    next
      case (Rejected e)
      show ?thesis
      proof (cases "isNonRetryableError lc e")
        case True
        with le Rejected "1.prems" show ?thesis by (auto simp: loop_fatal)
      next
        case nf: False
        show ?thesis
        proof (cases "attempt = maxRetries")
          case True
          with Rejected "1.prems" show ?thesis by (auto simp: loop_exhausted)
        next
          case False
          with le have lt: "attempt < maxRetries" by simp
          show ?thesis
          proof (cases "isNullish e")
            case True
            with lt Rejected nf "1.prems" show ?thesis by (auto simp: loop_warn_throws)
          next
            case nn: False
            have ge: "maxRetries \<le> attempt \<longleftrightarrow> False" using lt by simp
            have step: "withRetry_loop lc operation maxRetries b random attempt calls lastError slept =
                withRetry_loop lc operation maxRetries b random (attempt + 1) (Suc calls) e
                  (slept @ [b * 2 ^ (attempt - 1) + random attempt * 0.3 * (b * 2 ^ (attempt - 1))])"
              using lt Rejected nf nn by (simp add: loop_retry retried_def)
            note IH = "1.IH" [OF le Rejected nf, unfolded ge, OF _ refl refl nn]
            have "(maxRetries < attempt + 1 \<and> r = Rejected e) \<or> (\<exists>n. operation n = r) \<or>
                  (\<exists>e. r = Rejected (cannotReadMessage e))"
              using IH "1.prems" unfolding step by simp
            then show ?thesis using lt by auto
          qed
        qed
      qed
    qed
  qed
qed

lemma loop_decisive:
  "1 \<le> j \<Longrightarrow> attempt + j \<le> Suc maxRetries \<Longrightarrow>
   (\<And>n. calls < n \<Longrightarrow> n < calls + j \<Longrightarrow> \<exists>e. operation n = Rejected e \<and> retried lc e) \<Longrightarrow>
   decisive lc (operation (calls + j)) \<Longrightarrow>
   settled (withRetry_loop lc operation maxRetries b random attempt calls lastError slept)
     = operation (calls + j) \<and>
   invocations (withRetry_loop lc operation maxRetries b random attempt calls lastError slept)
     = calls + j"
proof (induction j arbitrary: attempt calls lastError slept)
  case 0
  then show ?case by simp
next
  case (Suc j)
  show ?case
  proof (cases "j = 0")
    case True
    with Suc.prems(2) have le: "attempt \<le> maxRetries" by simp
    from True Suc.prems(4) have d: "decisive lc (operation (Suc calls))" by simp
    show ?thesis
    proof (cases "operation (Suc calls)")
      case (Resolved v)
      with le True show ?thesis by (simp add: loop_resolved)
    next
      case (Rejected e)
      with d have "isNonRetryableError lc e" by (simp add: decisive_def)
      with le True Rejected show ?thesis by (simp add: loop_fatal)
    qed
  next
    case False
    then have j1: "1 \<le> j" by simp
    with Suc.prems(2) have lt: "attempt < maxRetries" by simp
    have "calls < Suc calls" "Suc calls < calls + Suc j" using j1 by simp_all
    from Suc.prems(3) [OF this] obtain e where
      Rejected: "operation (Suc calls) = Rejected e" and re: "retried lc e"
      by blast
    have step: "withRetry_loop lc operation maxRetries b random attempt calls lastError slept =
        withRetry_loop lc operation maxRetries b random (attempt + 1) (Suc calls) e
          (slept @ [b * 2 ^ (attempt - 1) + random attempt * 0.3 * (b * 2 ^ (attempt - 1))])"
      using lt Rejected re by (rule loop_retry)
    have pre: "\<exists>e. operation n = Rejected e \<and> retried lc e"
      if "Suc calls < n" "n < Suc calls + j" for n
      using that Suc.prems(3) [of n] by simp
    have d: "decisive lc (operation (Suc calls + j))" using Suc.prems(4) by simp
    have b: "attempt + 1 + j \<le> Suc maxRetries" using Suc.prems(2) by simp
    from Suc.IH [OF j1 b pre d] show ?thesis unfolding step by simp
  qed
qed

lemma inferErrorType_ascii:
  "lowercases_ascii lc \<Longrightarrow> isAscii (messageOf e) \<Longrightarrow>
   inferErrorType lc e = inferErrorType asciiLower e"
  by (simp add: inferErrorType_def lowercases_ascii_def)

lemma isNonRetryableError_ascii:
  "lowercases_ascii lc \<Longrightarrow> isAscii (messageOf e) \<Longrightarrow>
   isNonRetryableError lc e = isNonRetryableError asciiLower e"
  by (simp add: isNonRetryableError_def inferErrorType_ascii)

lemma lowercases_ascii_asciiLower: "lowercases_ascii asciiLower"
  by (simp add: lowercases_ascii_def)

text \<open>
  The retry bound, for operations that do not reject with \<open>undefined\<close> or \<open>null\<close>:
  at most \<open>maxRetries\<close> invocations; exactly one when the first attempt succeeds or
  fails with a non-retryable error; exactly \<open>maxRetries\<close>, ending in the failure of the
  last one, when every attempt fails with a retryable error.
\<close>

lemma withRetry_bound:
  "invocations (withRetry lc operation maxRetries b random) \<le> maxRetries \<and>
   (1 \<le> maxRetries \<and> operation 1 = Resolved v \<longrightarrow>
      withRetry lc operation maxRetries b random =
        \<lparr>settled = Resolved v, invocations = 1, delays = []\<rparr>) \<and>
   (1 \<le> maxRetries \<and> operation 1 = Rejected e \<and> isNonRetryableError lc e \<longrightarrow>
      withRetry lc operation maxRetries b random =
        \<lparr>settled = Rejected e, invocations = 1, delays = []\<rparr>) \<and>
   ((\<forall>n. 1 \<le> n \<and> n \<le> maxRetries \<longrightarrow>
         (\<exists>x. operation n = Rejected x \<and> \<not> isNonRetryableError lc x \<and> \<not> isNullish x)) \<longrightarrow>
      invocations (withRetry lc operation maxRetries b random) = maxRetries \<and>
      (1 \<le> maxRetries \<longrightarrow>
         settled (withRetry lc operation maxRetries b random) = operation maxRetries))"
proof (intro conjI impI)
  show "invocations (withRetry lc operation maxRetries b random) \<le> maxRetries"
    using loop_invocations_le [of lc operation maxRetries b random 1 0]
    by (simp add: withRetry_def)
next
  assume "1 \<le> maxRetries \<and> operation 1 = Resolved v"
  then show "withRetry lc operation maxRetries b random =
        \<lparr>settled = Resolved v, invocations = 1, delays = []\<rparr>"
    by (simp add: withRetry_def loop_resolved)
next
  assume "1 \<le> maxRetries \<and> operation 1 = Rejected e \<and> isNonRetryableError lc e"
  then show "withRetry lc operation maxRetries b random =
        \<lparr>settled = Rejected e, invocations = 1, delays = []\<rparr>"
    by (simp add: withRetry_def loop_fatal)
next
  assume a: "\<forall>n. 1 \<le> n \<and> n \<le> maxRetries \<longrightarrow>
         (\<exists>x. operation n = Rejected x \<and> \<not> isNonRetryableError lc x \<and> \<not> isNullish x)"
  have pre: "\<exists>x. operation n = Rejected x \<and> retried lc x"
    if "0 < n" "n \<le> 0 + (Suc maxRetries - 1)" for n
    using a that by (simp add: retried_def)
  note L = loop_all_retried [of 0 maxRetries 1 operation lc b random, OF pre]
  show "invocations (withRetry lc operation maxRetries b random) = maxRetries"
    using L by (simp add: withRetry_def)
  show "settled (withRetry lc operation maxRetries b random) = operation maxRetries"
    if "1 \<le> maxRetries"
    using L that by (simp add: withRetry_def)
qed

lemma network_down_retried: "retried asciiLower network_down"
  by (simp add: retried_def network_down_def isNonRetryableError_def inferErrorType_def
      asciiLower_def js_def)

lemma bad_key_fatal: "isNonRetryableError asciiLower bad_key"
  by (simp add: bad_key_def isNonRetryableError_def inferErrorType_def asciiLower_def js_def)

lemma withRetry_bound_examples:
  "withRetry asciiLower (\<lambda>n. Resolved True) 3 1000 (\<lambda>n. 0) =
     \<lparr>settled = Resolved True, invocations = 1, delays = []\<rparr> \<and>
   withRetry asciiLower (\<lambda>n. Rejected bad_key :: bool outcome) 3 1000 (\<lambda>n. 0) =
     \<lparr>settled = Rejected bad_key, invocations = 1, delays = []\<rparr> \<and>
   invocations (withRetry asciiLower (\<lambda>n. Rejected network_down :: bool outcome) 3 1000
                  (\<lambda>n. 0)) = 3 \<and>
   settled (withRetry asciiLower (\<lambda>n. Rejected network_down :: bool outcome) 3 1000 (\<lambda>n. 0)) =
     Rejected network_down"
  using withRetry_bound [of asciiLower "\<lambda>n. Resolved True" 3 1000 "\<lambda>n. 0" True bad_key]
        withRetry_bound [of asciiLower "\<lambda>n. Rejected bad_key :: bool outcome" 3 1000 "\<lambda>n. 0"
                          True bad_key]
        withRetry_bound [of asciiLower "\<lambda>n. Rejected network_down :: bool outcome" 3 1000
                          "\<lambda>n. 0" True bad_key]
        network_down_retried bad_key_fatal
  by (simp add: retried_def)

text \<open>
  Claim C5. The bound on the invocations holds, but a retryable failure is not always
  retried: \<open>undefined\<close> is classified \<open>UNKNOWN\<close>, which is retryable, and with three
  attempts allowed \<open>withRetry\<close> sleeps the first delay and then reads
  \<open>lastError.message\<close> for its log line. That read throws a \<open>TypeError\<close>, with which
  \<open>withRetry\<close> ends after one invocation instead of three, and not with the error the
  operation raised.
\<close>

theorem withRetry_undefined_not_retried:
  "\<not> isNonRetryableError lc Undefined \<and>
   withRetry lc (\<lambda>n. Rejected Undefined) 3 1000 random =
     \<lparr>settled = Rejected (cannotReadMessage Undefined), invocations = 1,
      delays = [1000 + random 1 * 0.3 * 1000]\<rparr>"
proof -
  have r: "\<not> isNonRetryableError lc Undefined"
    by (simp add: isNonRetryableError_def inferErrorType_def)
  have "withRetry_loop lc (\<lambda>n. Rejected Undefined) 3 1000 random 1 0 Undefined [] =
     \<lparr>settled = Rejected (cannotReadMessage Undefined), invocations = Suc 0,
      delays = [] @ [1000 * 2 ^ (1 - 1) + random 1 * 0.3 * (1000 * 2 ^ (1 - 1))]\<rparr>"
    by (rule loop_warn_throws) (simp_all add: r)
  with r show ?thesis by (simp add: withRetry_def)
qed

text \<open>
  Claim C1. The \<open>TIMEOUT\<close> error that \<open>makeAPICall\<close> raises for an aborted request
  is built with the constructor's default \<open>retryable = false\<close>, so \<open>isRetryable\<close> is
  false for it and \<open>isNonRetryableError\<close> true: \<open>withRetry\<close> with three attempts
  allowed rethrows it after the first attempt and sleeps no delay.
\<close>

theorem timeout_error_not_retried:
  "makeAPICall cfg (Rejected abort_error) = Rejected (timeout_error cfg) \<and>
   isNonRetryableError lc (timeout_error cfg) \<and>
   withRetry lc (\<lambda>n. makeAPICall cfg (Rejected abort_error)) 3 1000 random =
     \<lparr>settled = Rejected (timeout_error cfg), invocations = 1, delays = []\<rparr>"
proof -
  have m: "makeAPICall cfg (Rejected abort_error) = Rejected (timeout_error cfg)"
    by (simp add: makeAPICall_def makeAPICall_catch_def abort_error_def timeout_error_def)
  have f: "isNonRetryableError lc (timeout_error cfg)"
    by (simp add: isNonRetryableError_def timeout_error_def newGeminiError_def)
  have "withRetry lc (\<lambda>n. makeAPICall cfg (Rejected abort_error)) 3 1000 random =
     \<lparr>settled = Rejected (timeout_error cfg), invocations = 1, delays = []\<rparr>"
    unfolding withRetry_def by (simp add: loop_fatal m f)
  with m f show ?thesis by simp
qed

text \<open>
  The sibling path: the same failure arriving as a plain \<open>Error\<close> is classified
  \<open>TIMEOUT\<close> by its message and is retried until the attempts are used up.
\<close>

lemma untyped_timeout_retried:
  "lowercases_ascii lc \<Longrightarrow>
   inferErrorType lc untyped_timeout = TIMEOUT \<and>
   invocations (withRetry lc (\<lambda>n. Rejected untyped_timeout :: bool outcome) 3 1000 random) = 3"
proof -
  assume lc: "lowercases_ascii lc"
  have a: "isAscii (messageOf untyped_timeout)"
    by (simp add: untyped_timeout_def isAscii_def js_def)
  have "inferErrorType asciiLower untyped_timeout = TIMEOUT"
    by (simp add: untyped_timeout_def inferErrorType_def asciiLower_def js_def)
  with inferErrorType_ascii [OF lc a] have i: "inferErrorType lc untyped_timeout = TIMEOUT"
    by simp
  then have r: "retried lc untyped_timeout"
    by (simp add: retried_def isNonRetryableError_def untyped_timeout_def)
  have "invocations (withRetry_loop lc (\<lambda>n. Rejected untyped_timeout :: bool outcome) 3 1000
          random 1 0 Undefined []) = 0 + (Suc 3 - 1)"
    using loop_all_retried [of 0 3 1 "\<lambda>n. Rejected untyped_timeout :: bool outcome" lc
                              1000 random] r
    by blast
  with i show ?thesis by (simp add: withRetry_def)
qed

section \<open>Token budget\<close>

lemma estimateTokens_latin:
  "estimateTokens (replicate n 0x61 @ js ''...'') = (5 * int n + 34) div 20"
  by (simp add: estimateTokens_int js_def isHangulSyllable_def)

lemma estimateTokens_latin0:
  "0 < n \<Longrightarrow> estimateTokens (replicate n 0x61) = (5 * int n + 19) div 20"
  by (simp add: estimateTokens_int js_def isHangulSyllable_def)

text \<open>
  Claim C3. A text of 24772 letters \<open>a\<close> is estimated at 6193 tokens, one above the
  budget of \<open>8192 - 2000\<close>. \<open>validateAndAdjustTokens\<close> cuts it to 24768 letters and
  appends the three-character marker, and the adjusted text is again estimated at
  6193 tokens: still above the budget. The same happens on a small scale for
  \<open>"aaaaa"\<close> with \<open>maxTokens = 2001\<close>.
\<close>

theorem validateAndAdjustTokens_over_budget:
  "8192 - 2000 < estimateTokens (replicate 24772 0x61) \<and>
   adjustedText (validateAndAdjustTokens (replicate 24772 0x61) 8192) =
     Some (replicate 24768 0x61 @ js ''...'') \<and>
   8192 - 2000 < estimateTokens (replicate 24768 0x61 @ js ''...'') \<and>
   2001 - 2000 < estimateTokens (js ''aaaaa'') \<and>
   validateAndAdjustTokens (js ''aaaaa'') 2001 =
     \<lparr>isValid = False, adjustedText = Some (js ''aa...''), estimatedTokens = 2\<rparr>"
proof -
  have e: "estimateTokens (replicate 24772 0x61) = 6193"
    by (simp add: estimateTokens_latin0)
  have t: "substring0 (replicate 24772 0x61) ((int 24772 * (8192 - 2000)) div 6193)
            = replicate 24768 0x61"
    by (simp add: substring0_def)
  have a: "estimateTokens (replicate 24768 0x61 @ js ''...'') = 6193"
    by (simp add: estimateTokens_latin)
  have big: "validateAndAdjustTokens (replicate 24772 0x61) 8192 =
     \<lparr>isValid = False, adjustedText = Some (replicate 24768 0x61 @ js ''...''),
      estimatedTokens = 6193\<rparr>"
    unfolding validateAndAdjustTokens_def Let_def e using t a by simp
  have s: "estimateTokens (js ''aaaaa'') = 2"
    by (simp add: estimateTokens_int js_def isHangulSyllable_def)
  have small: "validateAndAdjustTokens (js ''aaaaa'') 2001 =
     \<lparr>isValid = False, adjustedText = Some (js ''aa...''), estimatedTokens = 2\<rparr>"
    by (simp add: validateAndAdjustTokens_def estimateTokens_int js_def isHangulSyllable_def
      substring0_def Let_def)
  show ?thesis unfolding e a s big small by simp
qed

section \<open>Error classification\<close>

lemma inferErrorType_by_rules:
  "inferErrorType lc err = classify_by_rules lc err"
proof (cases "isFalsy err")
  case True
  then show ?thesis by (simp add: inferErrorType_def classify_by_rules_def)
next
  case nf: False
  show ?thesis
  proof (cases "str_includes (lc (messageOf err)) (js ''quota'')")
    case q: True
    show ?thesis
    proof (cases "statusOf err")
      case None
      with nf q show ?thesis
        by (simp add: inferErrorType_def classify_by_rules_def classification_rules_def
            rule_applies_def mentions_def Let_def)
    next
      case (Some st)
      with nf q show ?thesis
        by (simp add: inferErrorType_def classify_by_rules_def classification_rules_def
            rule_applies_def mentions_def Let_def)
    qed
  next
    case q: False
    show ?thesis
    proof (cases "statusOf err")
      case None
      with nf q show ?thesis
        by (simp add: inferErrorType_def classify_by_rules_def classification_rules_def
            rule_applies_def mentions_def Let_def)
    next
      case (Some st)
      with nf q show ?thesis
        by (simp add: inferErrorType_def classify_by_rules_def classification_rules_def
            rule_applies_def mentions_def Let_def)
    qed
  qed
qed

lemma classified_asI:
  "isAscii (messageOf err) \<Longrightarrow> inferErrorType asciiLower err = k \<Longrightarrow> classified_as err k"
  by (simp add: classified_as_def inferErrorType_ascii)

text \<open>
  Claim C4, as stated, fails: each of the first four rules tests a status code or
  message substrings, so a substring of an earlier rule wins over the status code of
  a later one. Status 429 alone gives \<open>RATE_LIMIT_EXCEEDED\<close>, but with the message
  \<open>Unauthorized\<close> the result is \<open>API_KEY_INVALID\<close>; status 503 alone gives
  \<open>SERVICE_UNAVAILABLE\<close>, but with a message that mentions the quota the result is
  \<open>QUOTA_EXCEEDED\<close>.
\<close>

theorem inferErrorType_message_before_status:
  "classified_as unauthorized_429 API_KEY_INVALID \<and>
   classified_as plain_429 RATE_LIMIT_EXCEEDED \<and>
   classified_as quota_503 QUOTA_EXCEEDED \<and>
   classified_as plain_503 SERVICE_UNAVAILABLE"
proof (intro conjI)
  show "classified_as unauthorized_429 API_KEY_INVALID"
    by (rule classified_asI)
       (simp_all add: unauthorized_429_def isAscii_def inferErrorType_def asciiLower_def js_def)
  show "classified_as plain_429 RATE_LIMIT_EXCEEDED"
    by (rule classified_asI)
       (simp_all add: plain_429_def isAscii_def inferErrorType_def asciiLower_def js_def)
  show "classified_as quota_503 QUOTA_EXCEEDED"
    by (rule classified_asI)
       (simp_all add: quota_503_def isAscii_def inferErrorType_def asciiLower_def js_def)
  show "classified_as plain_503 SERVICE_UNAVAILABLE"
    by (rule classified_asI)
       (simp_all add: plain_503_def isAscii_def inferErrorType_def asciiLower_def js_def)
qed

lemma lowercases_ascii_Nil: "lowercases_ascii lc \<Longrightarrow> lc [] = []"
  by (simp add: lowercases_ascii_def isAscii_def asciiLower_def)

lemma mentions_no_message:
  "lowercases_ascii lc \<Longrightarrow> messageOf err = [] \<Longrightarrow> \<not> mentions lc err (c # s)"
  by (simp add: mentions_def lowercases_ascii_Nil js_def)

text \<open>
  Claim C4, amended. \<open>inferErrorType\<close> is the rule table \<open>classification_rules\<close>
  read from the top, first match wins, each rule testing a status code or phrases of
  the lower-cased message. So the status code decides the kind when the message holds
  no phrase of an earlier rule: 401 always gives \<open>API_KEY_INVALID\<close>; 429 gives
  \<open>QUOTA_EXCEEDED\<close> or \<open>RATE_LIMIT_EXCEEDED\<close> unless the message mentions
  \<open>unauthorized\<close> or \<open>api key\<close>; 400 gives \<open>INVALID_REQUEST\<close> unless the message
  mentions one of those or \<open>quota\<close> or \<open>rate limit\<close>; a status from 500 gives
  \<open>SERVICE_UNAVAILABLE\<close> unless the message mentions one of those or \<open>invalid\<close>.
  An error with one of these status codes is never classified by the later,
  message-only rules. Among the message rules \<open>quota\<close> wins over \<open>rate limit\<close>,
  and \<open>timeout\<close> over the network rule, wherever no earlier rule applies.
\<close>

theorem inferErrorType_rule_order:
  "lowercases_ascii lc \<Longrightarrow>
   inferErrorType lc err = classify_by_rules lc err \<and>
   (statusOf err = Some 401 \<longrightarrow> inferErrorType lc err = API_KEY_INVALID) \<and>
   (statusOf err = Some 429 \<and>
    \<not> mentions lc err (''unauthorized'') \<and>
    \<not> mentions lc err (''api key'') \<longrightarrow>
      inferErrorType lc err =
        (if mentions lc err (''quota'')
         then QUOTA_EXCEEDED else RATE_LIMIT_EXCEEDED)) \<and>
   (statusOf err = Some 400 \<and>
    \<not> mentions lc err (''unauthorized'') \<and>
    \<not> mentions lc err (''api key'') \<and>
    \<not> mentions lc err (''quota'') \<and>
    \<not> mentions lc err (''rate limit'') \<longrightarrow>
      inferErrorType lc err = INVALID_REQUEST) \<and>
   ((\<exists>st. statusOf err = Some st \<and> 500 \<le> st) \<and>
    \<not> mentions lc err (''unauthorized'') \<and>
    \<not> mentions lc err (''api key'') \<and>
    \<not> mentions lc err (''quota'') \<and>
    \<not> mentions lc err (''rate limit'') \<and>
    \<not> mentions lc err (''invalid'') \<longrightarrow>
      inferErrorType lc err = SERVICE_UNAVAILABLE) \<and>
   (status_rule_hit err \<longrightarrow>
      inferErrorType lc err \<in> set [API_KEY_INVALID, QUOTA_EXCEEDED, RATE_LIMIT_EXCEEDED,
                               INVALID_REQUEST, SERVICE_UNAVAILABLE]) \<and>
   (mentions lc err (''quota'') \<and>
    mentions lc err (''rate limit'') \<and>
    inferErrorType lc err \<noteq> API_KEY_INVALID \<longrightarrow>
      inferErrorType lc err = QUOTA_EXCEEDED) \<and>
   (mentions lc err (''timeout'') \<and>
    (mentions lc err (''network'') \<or>
     mentions lc err (''connection'')) \<and>
    inferErrorType lc err \<notin> set [API_KEY_INVALID, QUOTA_EXCEEDED, RATE_LIMIT_EXCEEDED,
                               INVALID_REQUEST, SERVICE_UNAVAILABLE] \<longrightarrow>
      inferErrorType lc err = TIMEOUT)"
proof -
  assume lc: "lowercases_ascii lc"
  have *: "\<not> mentions lc e (c # s)" if "messageOf e = []" for e c s
    using lc that by (rule mentions_no_message)
  have rest: "(statusOf err = Some 401 \<longrightarrow> inferErrorType lc err = API_KEY_INVALID) \<and>
   (statusOf err = Some 429 \<and>
    \<not> mentions lc err (''unauthorized'') \<and>
    \<not> mentions lc err (''api key'') \<longrightarrow>
      inferErrorType lc err =
        (if mentions lc err (''quota'')
         then QUOTA_EXCEEDED else RATE_LIMIT_EXCEEDED)) \<and>
   (statusOf err = Some 400 \<and>
    \<not> mentions lc err (''unauthorized'') \<and>
    \<not> mentions lc err (''api key'') \<and>
    \<not> mentions lc err (''quota'') \<and>
    \<not> mentions lc err (''rate limit'') \<longrightarrow>
      inferErrorType lc err = INVALID_REQUEST) \<and>
   ((\<exists>st. statusOf err = Some st \<and> 500 \<le> st) \<and>
    \<not> mentions lc err (''unauthorized'') \<and>
    \<not> mentions lc err (''api key'') \<and>
    \<not> mentions lc err (''quota'') \<and>
    \<not> mentions lc err (''rate limit'') \<and>
    \<not> mentions lc err (''invalid'') \<longrightarrow>
      inferErrorType lc err = SERVICE_UNAVAILABLE) \<and>
   (status_rule_hit err \<longrightarrow>
      inferErrorType lc err \<in> set [API_KEY_INVALID, QUOTA_EXCEEDED, RATE_LIMIT_EXCEEDED,
                               INVALID_REQUEST, SERVICE_UNAVAILABLE]) \<and>
   (mentions lc err (''quota'') \<and>
    mentions lc err (''rate limit'') \<and>
    inferErrorType lc err \<noteq> API_KEY_INVALID \<longrightarrow>
      inferErrorType lc err = QUOTA_EXCEEDED) \<and>
   (mentions lc err (''timeout'') \<and>
    (mentions lc err (''network'') \<or>
     mentions lc err (''connection'')) \<and>
    inferErrorType lc err \<notin> set [API_KEY_INVALID, QUOTA_EXCEEDED, RATE_LIMIT_EXCEEDED,
                               INVALID_REQUEST, SERVICE_UNAVAILABLE] \<longrightarrow>
      inferErrorType lc err = TIMEOUT)"
  proof (cases err)
    case Undefined
    then show ?thesis by (simp add: inferErrorType_def status_rule_hit_def *)
  next
    case Null
    then show ?thesis by (simp add: inferErrorType_def status_rule_hit_def *)
  next
    case (Falsy s)
    then show ?thesis by (simp add: inferErrorType_def status_rule_hit_def *)
  next
    case (GeminiErr t m orig r)
    then show ?thesis
      by (simp add: inferErrorType_def status_rule_hit_def mentions_def Let_def)
  next
    case (ErrorObj n m st sc)
    then show ?thesis
      by (auto simp add: inferErrorType_def status_rule_hit_def mentions_def Let_def
          split: option.splits)
  next
    case (OtherValue m st sc s)
    then show ?thesis
      by (auto simp add: inferErrorType_def status_rule_hit_def mentions_def Let_def
          split: option.splits)
  qed
  show ?thesis using inferErrorType_by_rules [of lc err] rest by (rule conjI)
qed

lemma ev_rate:
  "statusOf rate_limited = Some 429 \<and> \<not> mentions asciiLower rate_limited ''unauthorized'' \<and>
   \<not> mentions asciiLower rate_limited ''api key'' \<and> \<not> mentions asciiLower rate_limited ''quota''"
  by (simp add: rate_limited_def mentions_def asciiLower_def js_def)

lemma ev_quota:
  "mentions asciiLower quota_and_rate ''quota'' \<and>
   mentions asciiLower quota_and_rate ''rate limit'' \<and>
   inferErrorType asciiLower quota_and_rate \<noteq> API_KEY_INVALID"
  by (simp add: quota_and_rate_def mentions_def inferErrorType_def asciiLower_def js_def)

lemma ev_net:
  "mentions asciiLower network_timeout ''timeout'' \<and>
   mentions asciiLower network_timeout ''network'' \<and>
   inferErrorType asciiLower network_timeout \<notin>
     set [API_KEY_INVALID, QUOTA_EXCEEDED, RATE_LIMIT_EXCEEDED, INVALID_REQUEST,
          SERVICE_UNAVAILABLE]"
  by (simp add: network_timeout_def mentions_def inferErrorType_def asciiLower_def js_def)

lemma ev_gw:
  "statusOf gateway_timeout = Some 504 \<and> status_rule_hit gateway_timeout \<and>
   \<not> mentions asciiLower gateway_timeout ''unauthorized'' \<and>
   \<not> mentions asciiLower gateway_timeout ''api key'' \<and>
   \<not> mentions asciiLower gateway_timeout ''quota'' \<and>
   \<not> mentions asciiLower gateway_timeout ''rate limit'' \<and>
   \<not> mentions asciiLower gateway_timeout ''invalid''"
  by (simp add: gateway_timeout_def mentions_def status_rule_hit_def asciiLower_def js_def)

theorem inferErrorType_rule_order_witness:
  "lowercases_ascii asciiLower \<and>
   inferErrorType asciiLower rate_limited = RATE_LIMIT_EXCEEDED \<and>
   inferErrorType asciiLower quota_and_rate = QUOTA_EXCEEDED \<and>
   inferErrorType asciiLower network_timeout = TIMEOUT \<and>
   inferErrorType asciiLower gateway_timeout = SERVICE_UNAVAILABLE \<and>
   classify_by_rules asciiLower gateway_timeout = SERVICE_UNAVAILABLE"
proof -
  note order = inferErrorType_rule_order [OF lowercases_ascii_asciiLower]
  have a: "inferErrorType asciiLower rate_limited = RATE_LIMIT_EXCEEDED"
    using order [of rate_limited, THEN conjunct2] ev_rate by simp
  have b: "inferErrorType asciiLower quota_and_rate = QUOTA_EXCEEDED"
    using order [of quota_and_rate, THEN conjunct2] ev_quota by simp
  have c: "inferErrorType asciiLower network_timeout = TIMEOUT"
    using order [of network_timeout, THEN conjunct2] ev_net by simp
  have d: "inferErrorType asciiLower gateway_timeout = SERVICE_UNAVAILABLE"
    using order [of gateway_timeout, THEN conjunct2] ev_gw by simp
  have e: "classify_by_rules asciiLower gateway_timeout = SERVICE_UNAVAILABLE"
    using order [of gateway_timeout, THEN conjunct1] d by simp
  show ?thesis using a b c d e lowercases_ascii_asciiLower by simp
qed

section \<open>Request client\<close>

lemma makeAPICall_no_text:
  "no_text r \<Longrightarrow> makeAPICall cfg r = Rejected content_filtered_error"
  by (auto simp: no_text_def makeAPICall_def makeAPICall_catch_def content_filtered_error_def
      newGeminiError_def js_def)

lemma content_filtered_fatal: "isNonRetryableError lc content_filtered_error"
  by (simp add: content_filtered_error_def newGeminiError_def isNonRetryableError_def)

lemma makeAPICall_Resolved:
  "makeAPICall cfg r = Resolved v \<Longrightarrow> call_text v \<noteq> []"
  by (auto simp: makeAPICall_def makeAPICall_catch_def split: outcome.splits option.splits if_splits)

lemma withRetry_Resolved:
  "settled (withRetry lc operation maxRetries b random) = Resolved v \<Longrightarrow>
   \<exists>n. operation n = Resolved v"
  using loop_settled_cases [of lc operation maxRetries b random 1 0 Undefined "[]" "Resolved v"]
  by (simp add: withRetry_def)

lemma generateText_Resolved:
  "fst (generateText lc client options remote random now elapsed) = Resolved r \<Longrightarrow>
   \<exists>v. settled (withRetry lc (\<lambda>n. makeAPICall (config client) (remote n)) 3 1000 random)
         = Resolved v \<and> resp_text r = call_text v"
  by (auto simp: generateText_def Let_def split: if_splits outcome.splits)

lemma generateText_Rejected_typed:
  "initialized client \<Longrightarrow>
   settled (withRetry lc (\<lambda>n. makeAPICall (config client) (remote n)) 3 1000 random)
     = Rejected e \<Longrightarrow>
   instanceofGeminiError e \<Longrightarrow>
   fst (generateText lc client options remote random now elapsed) = Rejected e"
  by (simp add: generateText_def Let_def)

text \<open>
  Claim C8. On an initialized client, when the remote call of some attempt (the
  first, or a later one reached through failures that were retried) resolves with a
  missing or an empty text, \<open>generateText\<close> fails with the \<open>CONTENT_FILTERED\<close> error;
  and whatever the remote does, a result that \<open>generateText\<close> returns never has an
  empty text.
\<close>

theorem empty_output_is_content_filtered:
  "(initialized client \<and> 1 \<le> k \<and> k \<le> 3 \<and>
    (\<forall>n. 1 \<le> n \<and> n < k \<longrightarrow>
       (\<exists>e. makeAPICall (config client) (remote n) = Rejected e \<and>
            \<not> isNonRetryableError lc e \<and> \<not> isNullish e)) \<and>
    no_text (remote k) \<longrightarrow>
      fst (generateText lc client options remote random now elapsed) =
        Rejected content_filtered_error) \<and>
   (\<forall>r. fst (generateText lc client options remote random now elapsed) = Resolved r \<longrightarrow>
      resp_text r \<noteq> [])"
proof (intro conjI impI allI)
  assume a: "initialized client \<and> 1 \<le> k \<and> k \<le> 3 \<and>
    (\<forall>n. 1 \<le> n \<and> n < k \<longrightarrow>
       (\<exists>e. makeAPICall (config client) (remote n) = Rejected e \<and>
            \<not> isNonRetryableError lc e \<and> \<not> isNullish e)) \<and>
    no_text (remote k)"
  let ?op = "\<lambda>n. makeAPICall (config client) (remote n)"
  have k: "?op k = Rejected content_filtered_error"
    using a by (simp add: makeAPICall_no_text)
  then have d: "decisive lc (?op (0 + k))"
    by (simp add: decisive_def content_filtered_fatal)
  have pre: "\<exists>e. ?op n = Rejected e \<and> retried lc e" if "0 < n" "n < 0 + k" for n
    using a that by (simp add: retried_def)
  have "settled (withRetry_loop lc ?op 3 1000 random 1 0 Undefined []) = ?op (0 + k)"
    using loop_decisive [of k 1 3 0 ?op lc 1000 random, OF _ _ pre d] a by simp
  then have "settled (withRetry lc ?op 3 1000 random) = Rejected content_filtered_error"
    using k by (simp add: withRetry_def)
  moreover have "instanceofGeminiError content_filtered_error"
    by (simp add: content_filtered_error_def newGeminiError_def)
  ultimately show "fst (generateText lc client options remote random now elapsed) =
        Rejected content_filtered_error"
    using a by (simp add: generateText_Rejected_typed)
next
  fix r
  assume "fst (generateText lc client options remote random now elapsed) = Resolved r"
  from generateText_Resolved [OF this] obtain v where
    v: "settled (withRetry lc (\<lambda>n. makeAPICall (config client) (remote n)) 3 1000 random)
          = Resolved v"
    and t: "resp_text r = call_text v" by blast
  from withRetry_Resolved [OF v] obtain n where "makeAPICall (config client) (remote n) = Resolved v"
    by blast
  then have "call_text v \<noteq> []" by (rule makeAPICall_Resolved)
  with t show "resp_text r \<noteq> []" by simp
qed

text \<open>
  Claim C10. However the probe settles, \<open>healthCheck\<close> resolves with a boolean,
  which is true exactly when the probe resolved with a non-empty text; and
  \<open>checkGeminiHealth\<close> resolves with a boolean as well, true exactly when the client
  could be obtained and its probe resolved with a non-empty text.
\<close>

theorem healthCheck_total:
  "(\<exists>b. healthCheck_try probe = Resolved b) \<and>
   (healthCheck_try probe = Resolved True \<longleftrightarrow>
      (\<exists>r. probe = Resolved r \<and> resp_text r \<noteq> [])) \<and>
   (\<exists>b. healthCheck lc client remote random now elapsed = Resolved b) \<and>
   (healthCheck lc client remote random now elapsed = Resolved True \<longleftrightarrow>
      (\<exists>r. fst (generateText lc client healthProbe remote random now elapsed) = Resolved r \<and>
           resp_text r \<noteq> [])) \<and>
   (\<exists>b. checkGeminiHealth lc inst env remote random now elapsed = Resolved b) \<and>
   (checkGeminiHealth lc inst env remote random now elapsed = Resolved True \<longleftrightarrow>
      (\<exists>c r. fst (getGeminiClient inst env) = Resolved c \<and>
             fst (generateText lc c healthProbe remote random now elapsed) = Resolved r \<and>
             resp_text r \<noteq> []))"
proof -
  have t: "\<exists>b. healthCheck_try p = Resolved b" for p
    by (cases p) (auto simp: healthCheck_try_def)
  have i: "healthCheck_try p = Resolved True \<longleftrightarrow> (\<exists>r. p = Resolved r \<and> resp_text r \<noteq> [])" for p
    by (cases p) (simp_all add: healthCheck_try_def)
  have c: "\<exists>b. checkGeminiHealth lc inst env remote random now elapsed = Resolved b"
    by (auto simp: checkGeminiHealth_def split: outcome.splits)
  have ci: "checkGeminiHealth lc inst env remote random now elapsed = Resolved True \<longleftrightarrow>
      (\<exists>c r. fst (getGeminiClient inst env) = Resolved c \<and>
             fst (generateText lc c healthProbe remote random now elapsed) = Resolved r \<and>
             resp_text r \<noteq> [])"
  proof (cases "fst (getGeminiClient inst env)")
    case (Resolved cl)
    obtain b where b: "healthCheck lc cl remote random now elapsed = Resolved b"
      using t unfolding healthCheck_def by blast
    have "checkGeminiHealth lc inst env remote random now elapsed = Resolved b"
      using Resolved b by (simp add: checkGeminiHealth_def)
    moreover have "b \<longleftrightarrow>
      (\<exists>r. fst (generateText lc cl healthProbe remote random now elapsed) = Resolved r \<and>
           resp_text r \<noteq> [])"
      using b i [of "fst (generateText lc cl healthProbe remote random now elapsed)"]
      unfolding healthCheck_def by simp
    ultimately show ?thesis using Resolved by simp
  next
    case (Rejected e)
    then show ?thesis by (simp add: checkGeminiHealth_def)
  qed
  show ?thesis using t i c ci unfolding healthCheck_def by blast
qed

lemma generateText_success:
  "initialized client \<Longrightarrow>
   settled (withRetry lc (\<lambda>n. makeAPICall (config client) (remote n)) 3 1000 random)
     = Resolved v \<Longrightarrow>
   \<exists>r. fst (generateText lc client options remote random now elapsed) = Resolved r \<and>
       resp_text r = call_text v"
  by (simp add: generateText_def Let_def)

lemma makeAPICall_network_down:
  "makeAPICall cfg (Rejected network_down) = Rejected network_down"
  by (simp add: makeAPICall_def makeAPICall_catch_def network_down_def js_def)

theorem empty_output_is_content_filtered_witness:
  "fst (generateText asciiLower demo_client healthProbe flaky_then_empty (\<lambda>n. 0) 0 5) =
     Rejected content_filtered_error \<and>
   (\<exists>r. fst (generateText asciiLower demo_client healthProbe
               (\<lambda>n. Resolved (Some (js ''Hi''))) (\<lambda>n. 0) 0 5)
          = Resolved r \<and> resp_text r \<noteq> [])"
proof
  have i: "initialized demo_client" by (simp add: demo_client_def)
  have "\<forall>n. 1 \<le> n \<and> n < 2 \<longrightarrow>
       (\<exists>e. makeAPICall (config demo_client) (flaky_then_empty n) = Rejected e \<and>
            \<not> isNonRetryableError asciiLower e \<and> \<not> isNullish e)"
  proof (intro allI impI)
    fix n :: nat assume "1 \<le> n \<and> n < 2"
    then have "n = 1" by simp
    then show "\<exists>e. makeAPICall (config demo_client) (flaky_then_empty n) = Rejected e \<and>
            \<not> isNonRetryableError asciiLower e \<and> \<not> isNullish e"
      using network_down_retried
      by (simp add: flaky_then_empty_def makeAPICall_network_down retried_def)
  qed
  moreover have "no_text (flaky_then_empty 2)"
    by (simp add: no_text_def flaky_then_empty_def)
  ultimately show "fst (generateText asciiLower demo_client healthProbe flaky_then_empty
                          (\<lambda>n. 0) 0 5) = Rejected content_filtered_error"
    using i empty_output_is_content_filtered
            [of demo_client 2 flaky_then_empty asciiLower healthProbe "\<lambda>n. 0" 0 5]
    by simp
next
  let ?remote = "\<lambda>n::nat. Resolved (Some (js ''Hi''))"
  have i: "initialized demo_client" by (simp add: demo_client_def)
  have "makeAPICall (config demo_client) (?remote 1) =
          Resolved \<lparr>call_text = js ''Hi'', call_finishReason = js ''STOP'',
                    call_safetyRatings = None\<rparr>"
    by (simp add: makeAPICall_def js_def)
  then have "settled (withRetry asciiLower (\<lambda>n. makeAPICall (config demo_client) (?remote n))
                        3 1000 (\<lambda>n. 0))
     = Resolved \<lparr>call_text = js ''Hi'', call_finishReason = js ''STOP'',
                    call_safetyRatings = None\<rparr>"
    by (simp add: withRetry_def loop_resolved)
  from generateText_success [OF i this] obtain r where
    r: "fst (generateText asciiLower demo_client healthProbe ?remote (\<lambda>n. 0) 0 5) = Resolved r"
    by blast
  with empty_output_is_content_filtered
         [of demo_client 1 ?remote asciiLower healthProbe "\<lambda>n. 0" 0 5]
  have "resp_text r \<noteq> []" by blast
  with r show "\<exists>r. fst (generateText asciiLower demo_client healthProbe ?remote (\<lambda>n. 0) 0 5)
                 = Resolved r \<and> resp_text r \<noteq> []" by blast
qed

section \<open>Sanitizer: what a second pass does\<close>

lemma isSpace_LF [simp]: "isSpace LF" by (simp add: isSpace_def LF_def)

lemma isSpace_CR [simp]: "isSpace CR" by (simp add: isSpace_def CR_def)

lemma isSpace_TAB [simp]: "isSpace TAB" by (simp add: isSpace_def TAB_def)

lemma isSpace_SP [simp]: "isSpace SP" by (simp add: isSpace_def SP_def)

lemma LF_neq_TAB [simp]: "LF \<noteq> TAB" by (simp add: LF_def TAB_def)

lemma SP_neq_TAB [simp]: "SP \<noteq> TAB" by (simp add: SP_def TAB_def)

lemma TAB_neq_SP [simp]: "TAB \<noteq> SP" by (simp add: SP_def TAB_def)

lemma TAB_neq_LF [simp]: "TAB \<noteq> LF" by (simp add: LF_def TAB_def)

lemma wsThenNl_LF [simp]: "wsThenNl (LF # cs) \<noteq> None"
  by (simp split: option.splits)

lemma wsThenNl_Some_drop:
  "wsThenNl cs = Some k \<Longrightarrow> wsThenNl (drop k cs) = None"
proof (induction cs arbitrary: k)
  case Nil
  then show ?case by simp
next
  case (Cons c cs)
  then show ?case by (auto split: if_splits option.splits)
qed

lemma wsThenNl_Some_spaces:
  "wsThenNl cs = Some k \<Longrightarrow> k \<le> length cs \<and> (\<forall>c \<in> set (take k cs). isSpace c)"
proof (induction cs arbitrary: k)
  case Nil
  then show ?case by simp
next
  case (Cons c cs)
  then show ?case by (auto split: if_splits option.splits)
qed

lemma wsThenNl_None_strip:
  "wsThenNl r = None \<Longrightarrow> wsThenNl (stripLineEndWs r) = None"
proof (induction r)
  case Nil
  then show ?case by simp
next
  case (Cons c cs)
  then show ?case by (auto split: if_splits option.splits)
qed

lemma wsThenNl_None_take:
  "wsThenNl r = None \<Longrightarrow> wsThenNl (take n r) = None"
proof (induction r arbitrary: n)
  case Nil
  then show ?case by simp
next
  case (Cons c cs)
  then show ?case by (cases n) (auto split: if_splits option.splits)
qed

lemma tidy_strip: "tidy (stripLineEndWs s)"
proof (induction s rule: stripLineEndWs.induct)
  case 1
  show ?case by simp
next
  case (2 c cs)
  show ?case
  proof (cases "isSpace c")
    case False
    with 2 show ?thesis by simp
  next
    case sp: True
    show ?thesis
    proof (cases "wsThenNl cs")
      case None
      with sp 2 show ?thesis by (simp add: wsThenNl_None_strip)
    next
      case (Some k)
      with sp 2 show ?thesis by (simp add: wsThenNl_None_strip wsThenNl_Some_drop)
    qed
  qed
qed

lemma tidy_strip_id: "tidy s \<Longrightarrow> stripLineEndWs s = s"
  by (induction s) auto

lemma tidy_collapse_id: "tidy s \<Longrightarrow> collapseNewlines s = s"
proof (induction s)
  case Nil
  show ?case by simp
next
  case (Cons c cs)
  have "length (takeWhile (\<lambda>x. x = LF) (c # cs)) \<le> 1"
  proof (cases "c = LF")
    case False
    then show ?thesis by simp
  next
    case True
    with Cons.prems have "wsThenNl cs = None" by simp
    then have "takeWhile (\<lambda>x. x = LF) cs = []" by (cases cs) (auto split: option.splits)
    with True show ?thesis by simp
  qed
  then have "\<not> 3 \<le> length (takeWhile (\<lambda>x. x = LF) (c # cs))" by linarith
  with Cons show ?case by (simp add: Let_def del: takeWhile.simps)
qed

lemma tidy_take: "tidy s \<Longrightarrow> tidy (take n s)"
proof (induction s arbitrary: n)
  case Nil
  show ?case by simp
next
  case (Cons c cs)
  then show ?case by (cases n) (auto simp: wsThenNl_None_take)
qed

lemma tidy_replaceCRLF_id: "tidy s \<Longrightarrow> replaceCRLF s = s"
  by (induction s rule: replaceCRLF.induct) auto

lemma expandTabs_id: "TAB \<notin> set s \<Longrightarrow> expandTabs s = s"
  by (induction s) auto

lemma expandTabs_no_tab: "TAB \<notin> set (expandTabs s)"
  by (induction s) auto

lemma set_strip: "set (stripLineEndWs s) \<subseteq> insert LF (set s)"
proof (induction s rule: stripLineEndWs.induct)
  case 1
  show ?case by simp
next
  case (2 c cs)
  show ?case
  proof (cases "isSpace c")
    case False
    with "2.IH" show ?thesis by auto
  next
    case sp: True
    show ?thesis
    proof (cases "wsThenNl cs")
      case None
      with sp "2.IH" show ?thesis by auto
    next
      case (Some k)
      have "set (stripLineEndWs (drop k cs)) \<subseteq> insert LF (set cs)"
        using "2.IH" sp Some set_drop_subset [of k cs] by blast
      with sp Some show ?thesis by auto
    qed
  qed
qed

lemma set_collapse: "set (collapseNewlines s) \<subseteq> insert LF (set s)"
proof (induction s rule: collapseNewlines.induct)
  case 1
  show ?case by simp
next
  case (2 c cs)
  show ?case
  proof (cases "3 \<le> length (takeWhile (\<lambda>x. x = LF) (c # cs))")
    case True
    have "collapseNewlines (c # cs) =
            LF # LF # collapseNewlines (drop (length (takeWhile (\<lambda>x. x = LF) (c # cs))) (c # cs))"
      using True by (simp add: Let_def del: takeWhile.simps)
    moreover have "set (collapseNewlines (drop (length (takeWhile (\<lambda>x. x = LF) (c # cs))) (c # cs)))
        \<subseteq> insert LF (set (c # cs))"
      using "2.IH"(1) [OF refl True] set_drop_subset [of _ "c # cs"] by blast
    ultimately show ?thesis by auto
  next
    case False
    then have "collapseNewlines (c # cs) = c # collapseNewlines cs"
      by (simp add: Let_def del: takeWhile.simps)
    with "2.IH"(2) [OF refl False] show ?thesis by auto
  qed
qed

lemma tidy_drop: "tidy s \<Longrightarrow> tidy (drop n s)"
proof (induction s arbitrary: n)
  case Nil
  show ?case by simp
next
  case (Cons c cs)
  then show ?case by (cases n) auto
qed

lemma wsThenNl_no_LF: "LF \<notin> set s \<Longrightarrow> wsThenNl s = None"
  by (induction s) auto

lemma no_LF_tidy: "LF \<notin> set s \<Longrightarrow> tidy s"
  by (induction s) (auto simp: wsThenNl_no_LF)

lemma trim_infix: "\<exists>n m. trim s = take m (drop n s)"
proof -
  have "dropWhile isSpace s = drop (length (takeWhile isSpace s)) s"
    by (rule dropWhile_eq_drop)
  moreover have "rev (dropWhile isSpace (rev t)) = take (length t - length (takeWhile isSpace (rev t))) t"
    for t :: jsstring
    by (simp add: dropWhile_eq_drop rev_drop)
  ultimately show ?thesis unfolding trim_def by metis
qed

lemma trim_ends_clean: "ends_clean (trim s)"
proof -
  have "ends_clean (rev (dropWhile isSpace t))" for t :: jsstring
    using hd_dropWhile [of isSpace t] by (auto simp: ends_clean_def last_rev)
  then show ?thesis by (simp add: trim_def)
qed

lemma trim_starts_clean: "starts_clean (trim s)"
proof -
  define t where "t = dropWhile isSpace s"
  have t: "starts_clean t"
  proof (cases t)
    case Nil
    then show ?thesis by (simp add: starts_clean_def)
  next
    case (Cons c cs)
    then have ne: "dropWhile isSpace s \<noteq> []" by (simp add: t_def)
    have "\<not> isSpace (hd (dropWhile isSpace s))" using ne by (rule hd_dropWhile)
    then have "\<not> isSpace (hd t)" by (simp add: t_def)
    with Cons show ?thesis by (simp add: starts_clean_def)
  qed
  have "rev (dropWhile isSpace (rev t)) = take (length t - length (takeWhile isSpace (rev t))) t"
    by (simp add: dropWhile_eq_drop rev_drop)
  moreover have "starts_clean (take n t)" for n
    using t by (cases t; cases n) (auto simp: starts_clean_def)
  ultimately show ?thesis by (simp add: trim_def t_def)
qed

lemma trim_id: "starts_clean s \<Longrightarrow> ends_clean s \<Longrightarrow> trim s = s"
proof -
  assume a: "starts_clean s" and b: "ends_clean s"
  from a have 1: "dropWhile isSpace s = s" by (cases s) (auto simp: starts_clean_def)
  from b have 2: "dropWhile isSpace (rev s) = rev s"
    by (cases "rev s") (auto simp: ends_clean_def last_rev hd_rev [symmetric])
  show ?thesis by (simp add: trim_def 1 2)
qed

lemma normalizeText_id:
  "tidy s \<Longrightarrow> TAB \<notin> set s \<Longrightarrow> normalizeText s = trim s"
proof -
  assume t: "tidy s" and n: "TAB \<notin> set s"
  obtain i j where tr: "trim s = take j (drop i s)" using trim_infix by blast
  have 1: "tidy (trim s)" unfolding tr using t by (simp add: tidy_take tidy_drop)
  have "set (trim s) \<subseteq> set s" unfolding tr
    using set_take_subset [of j "drop i s"] set_drop_subset [of i s] by blast
  with n have 2: "TAB \<notin> set (trim s)" by blast
  show ?thesis
    by (simp add: normalizeText_def tidy_replaceCRLF_id [OF 1] expandTabs_id [OF 2]
        tidy_strip_id [OF 1] tidy_collapse_id [OF 1])
qed

lemma length_trim: "length (trim s) \<le> length s"
proof -
  obtain i j where tr: "trim s = take j (drop i s)" using trim_infix by blast
  show ?thesis unfolding tr by simp
qed

text \<open>
  After \<open>/\s+\n/\<close> has been replaced, no two line feeds are adjacent any more, so the
  replacement of \<open>/\n{3,}/\<close> that follows it in \<open>sanitizeText\<close> never finds a match.
\<close>

lemma normalizeText_strip:
  "normalizeText x = stripLineEndWs (expandTabs (replaceCRLF (trim x)))"
  by (simp add: normalizeText_def tidy_collapse_id tidy_strip)

lemma tidy_normalizeText: "tidy (normalizeText x)"
  by (simp add: normalizeText_strip tidy_strip)

lemma no_tab_normalizeText: "TAB \<notin> set (normalizeText x)"
proof -
  have "set (normalizeText x) \<subseteq> insert LF (set (expandTabs (replaceCRLF (trim x))))"
    unfolding normalizeText_strip by (rule set_strip)
  then show ?thesis using expandTabs_no_tab [of "replaceCRLF (trim x)"] by auto
qed

lemma sanitizeText_props:
  "tidy (sanitizeText x) \<and> TAB \<notin> set (sanitizeText x) \<and> length (sanitizeText x) \<le> 100000"
proof (cases "x = []")
  case True
  then show ?thesis by (simp add: sanitizeText_def)
next
  case False
  have "TAB \<notin> set (take 100000 (normalizeText x))"
    using no_tab_normalizeText [of x] set_take_subset [of 100000 "normalizeText x"] by blast
  with False show ?thesis
    by (simp add: sanitizeText_def substring0_def tidy_take tidy_normalizeText)
qed

lemma sanitizeText_twice: "sanitizeText (sanitizeText x) = trim (sanitizeText x)"
proof -
  let ?r = "sanitizeText x"
  from sanitizeText_props [of x] have t: "tidy ?r" and n: "TAB \<notin> set ?r"
    and l: "length ?r \<le> 100000" by simp_all
  have "length (trim ?r) \<le> 100000" using length_trim [of ?r] l by linarith
  then have "take 100000 (trim ?r) = trim ?r" by simp
  then have "substring0 (normalizeText ?r) 100000 = trim ?r"
    by (simp add: normalizeText_id [OF t n] substring0_def)
  moreover have "trim [] = []" by (simp add: trim_def)
  ultimately show ?thesis by (simp add: sanitizeText_def [of ?r])
qed

lemma starts_clean_replaceCRLF: "starts_clean s \<Longrightarrow> starts_clean (replaceCRLF s)"
proof (cases s)
  case Nil
  then show ?thesis by (simp add: starts_clean_def)
next
  case outer: (Cons a t)
  assume "starts_clean s"
  with outer have ns: "\<not> isSpace a" by (simp add: starts_clean_def)
  then have "a \<noteq> CR" by auto
  show ?thesis
  proof (cases t)
    case Nil
    with outer ns show ?thesis by (simp add: starts_clean_def)
  next
    case (Cons b cs)
    with outer ns \<open>a \<noteq> CR\<close> show ?thesis by (simp add: starts_clean_def)
  qed
qed

lemma starts_clean_expandTabs: "starts_clean s \<Longrightarrow> starts_clean (expandTabs s)"
  by (cases s) (auto simp: starts_clean_def)

lemma starts_clean_strip: "starts_clean s \<Longrightarrow> starts_clean (stripLineEndWs s)"
  by (cases s) (auto simp: starts_clean_def)

lemma starts_clean_take: "starts_clean s \<Longrightarrow> starts_clean (take n s)"
  by (cases s; cases n) (auto simp: starts_clean_def)

lemma last_replaceCRLF:
  "s \<noteq> [] \<Longrightarrow> \<not> isSpace (last s) \<Longrightarrow> replaceCRLF s \<noteq> [] \<and> last (replaceCRLF s) = last s"
proof (induction s rule: replaceCRLF.induct)
  case (1 a b cs)
  show ?case
  proof (cases "a = CR \<and> b = LF")
    case True
    with "1.prems" have "cs \<noteq> []" by auto
    moreover from "1.prems" \<open>cs \<noteq> []\<close> have "\<not> isSpace (last cs)" by simp
    ultimately have "replaceCRLF cs \<noteq> [] \<and> last (replaceCRLF cs) = last cs"
      using "1.IH"(1) [OF True] by blast
    moreover have "replaceCRLF (a # b # cs) = LF # replaceCRLF cs" using True by simp
    ultimately show ?thesis using \<open>cs \<noteq> []\<close> by simp
  next
    case False
    then have eq: "replaceCRLF (a # b # cs) = a # replaceCRLF (b # cs)" by auto
    from "1.prems" have "\<not> isSpace (last (b # cs))" by simp
    with "1.IH"(2) [OF False] have "replaceCRLF (b # cs) \<noteq> [] \<and>
        last (replaceCRLF (b # cs)) = last (b # cs)" by blast
    then show ?thesis unfolding eq by simp
  qed
next
  case "2_1"
  then show ?case by simp
next
  case "2_2"
  then show ?case by simp
qed

lemma last_expandTabs:
  "s \<noteq> [] \<Longrightarrow> \<not> isSpace (last s) \<Longrightarrow> expandTabs s \<noteq> [] \<and> last (expandTabs s) = last s"
proof (induction s)
  case Nil
  then show ?case by simp
next
  case (Cons c cs)
  show ?case
  proof (cases "cs = []")
    case True
    with Cons.prems have "c \<noteq> TAB" by auto
    with True show ?thesis by simp
  next
    case False
    with Cons show ?thesis by simp
  qed
qed

lemma last_strip:
  "s \<noteq> [] \<Longrightarrow> \<not> isSpace (last s) \<Longrightarrow>
   stripLineEndWs s \<noteq> [] \<and> last (stripLineEndWs s) = last s"
proof (induction s rule: stripLineEndWs.induct)
  case 1
  then show ?case by simp
next
  case (2 c cs)
  show ?case
  proof (cases "cs = []")
    case True
    with "2.prems" show ?thesis by simp
  next
    case ne: False
    with "2.prems" have lc: "\<not> isSpace (last cs)" by simp
    show ?thesis
    proof (cases "isSpace c")
      case False
      with ne lc "2.IH" show ?thesis by simp
    next
      case sp: True
      show ?thesis
      proof (cases "wsThenNl cs")
        case None
        with sp ne lc "2.IH" show ?thesis by simp
      next
        case (Some k)
        from wsThenNl_Some_spaces [OF Some]
        have kl: "k \<le> length cs" and al: "\<forall>c \<in> set (take k cs). isSpace c" by simp_all
        have "k \<noteq> length cs"
        proof
          assume "k = length cs"
          with al have "\<forall>c \<in> set cs. isSpace c" by simp
          with ne have "isSpace (last cs)" by simp
          with lc show False by simp
        qed
        with kl have k: "k < length cs" by simp
        then have d: "drop k cs \<noteq> []" and l: "last (drop k cs) = last cs" by simp_all
        from "2.IH"(2) [OF sp Some d] l lc
        have "stripLineEndWs (drop k cs) \<noteq> [] \<and> last (stripLineEndWs (drop k cs)) = last cs"
          by simp
        with sp Some ne show ?thesis by simp
      qed
    qed
  qed
qed

lemma ends_clean_normalizeText: "ends_clean (normalizeText x)"
proof (cases "trim x = []")
  case True
  then show ?thesis by (simp add: normalizeText_def ends_clean_def)
next
  case False
  with trim_ends_clean [of x] have l: "\<not> isSpace (last (trim x))" by (simp add: ends_clean_def)
  from last_replaceCRLF [OF False l] l
  have 1: "replaceCRLF (trim x) \<noteq> []" "\<not> isSpace (last (replaceCRLF (trim x)))" by simp_all
  from last_expandTabs [OF 1] 1
  have 2: "expandTabs (replaceCRLF (trim x)) \<noteq> []"
    "\<not> isSpace (last (expandTabs (replaceCRLF (trim x))))" by simp_all
  from last_strip [OF 2] 2 show ?thesis by (simp add: normalizeText_strip ends_clean_def)
qed

lemma starts_clean_normalizeText: "starts_clean (normalizeText x)"
  unfolding normalizeText_strip
  by (intro starts_clean_strip starts_clean_expandTabs starts_clean_replaceCRLF trim_starts_clean)

lemma starts_clean_sanitizeText: "starts_clean (sanitizeText x)"
  by (simp add: sanitizeText_def substring0_def starts_clean_take starts_clean_normalizeText)
     (simp add: starts_clean_def)

text \<open>
  Claim C6, amended. A second pass of \<open>sanitizeText\<close> only trims: it removes the
  white space that the cut at 100000 characters may have left at the end. So
  \<open>sanitizeText\<close> is idempotent at \<open>x\<close> exactly when the sanitized text does not end
  in white space, which is the case whenever the normalised text has at most 100000
  characters, so that nothing is cut.
\<close>

theorem sanitizeText_idempotent_unless_cut:
  "sanitizeText (sanitizeText x) = trim (sanitizeText x) \<and>
   (sanitizeText (sanitizeText x) = sanitizeText x \<longleftrightarrow>
      sanitizeText x = [] \<or> \<not> isSpace (last (sanitizeText x))) \<and>
   (length (normalizeText x) \<le> 100000 \<longrightarrow>
      sanitizeText (sanitizeText x) = sanitizeText x)"
proof (intro conjI impI)
  show tw: "sanitizeText (sanitizeText x) = trim (sanitizeText x)"
    by (rule sanitizeText_twice)
  show "sanitizeText (sanitizeText x) = sanitizeText x \<longleftrightarrow>
      sanitizeText x = [] \<or> \<not> isSpace (last (sanitizeText x))"
  proof
    assume "sanitizeText (sanitizeText x) = sanitizeText x"
    with tw have "trim (sanitizeText x) = sanitizeText x" by simp
    with trim_ends_clean [of "sanitizeText x"]
    show "sanitizeText x = [] \<or> \<not> isSpace (last (sanitizeText x))"
      by (simp add: ends_clean_def)
  next
    assume "sanitizeText x = [] \<or> \<not> isSpace (last (sanitizeText x))"
    then have "ends_clean (sanitizeText x)" by (simp add: ends_clean_def)
    with starts_clean_sanitizeText have "trim (sanitizeText x) = sanitizeText x"
      by (rule trim_id)
    with tw show "sanitizeText (sanitizeText x) = sanitizeText x" by simp
  qed
  assume "length (normalizeText x) \<le> 100000"
  then have "sanitizeText x = [] \<or> sanitizeText x = normalizeText x"
    by (simp add: sanitizeText_def substring0_def)
  with ends_clean_normalizeText [of x] have "ends_clean (sanitizeText x)"
    by (auto simp: ends_clean_def)
  with starts_clean_sanitizeText have "trim (sanitizeText x) = sanitizeText x"
    by (rule trim_id)
  with tw show "sanitizeText (sanitizeText x) = sanitizeText x" by simp
qed

theorem sanitizeText_idempotent_unless_cut_witness:
  "length (normalizeText crlf_tabs_example) \<le> 100000 \<and>
   sanitizeText (sanitizeText crlf_tabs_example) = sanitizeText crlf_tabs_example"
proof -
  have "normalizeText crlf_tabs_example = [0x61, LF, 0x62, SP, SP, SP, SP, 0x63, LF, 0x64]"
    by (simp add: crlf_tabs_example_def normalizeText_def trim_def
      isSpace_def CR_def LF_def TAB_def SP_def)
  then have "length (normalizeText crlf_tabs_example) \<le> 100000" by simp
  with sanitizeText_idempotent_unless_cut [of crlf_tabs_example] show ?thesis by blast
qed

lemma nonspace_a: "\<not> isSpace 0x61" by (simp add: isSpace_def)

lemma nonspace_b: "\<not> isSpace 0x62" by (simp add: isSpace_def)

lemma starts_clean_replicate:
  "0 < n \<Longrightarrow> starts_clean (replicate n a @ r) = (\<not> isSpace a)"
  by (cases n) (simp_all add: starts_clean_def)

lemma dropWhile_starts_clean: "starts_clean s \<Longrightarrow> dropWhile isSpace s = s"
  by (cases s) (auto simp: starts_clean_def)

lemma sanitizeText_long_text: "sanitizeText long_text = replicate 99999 0x61 @ [SP]"
proof -
  have s: "set long_text = {0x61, SP, 0x62}"
    by (auto simp: long_text_def)
  have t: "tidy long_text"
    by (rule no_LF_tidy) (simp add: s LF_def SP_def)
  have n: "TAB \<notin> set long_text"
    by (simp add: s TAB_def SP_def)
  have "starts_clean long_text"
    by (simp add: long_text_def starts_clean_replicate nonspace_a)
  moreover have "ends_clean long_text"
    by (simp add: long_text_def ends_clean_def nonspace_b)
  ultimately have "trim long_text = long_text" by (rule trim_id)
  with normalizeText_id [OF t n] have "normalizeText long_text = long_text" by simp
  moreover have "long_text \<noteq> []" by (simp add: long_text_def)
  ultimately have "sanitizeText long_text = take 100000 long_text"
    by (simp add: sanitizeText_def substring0_def)
  also have "\<dots> = replicate 99999 0x61 @ [SP]" by (simp add: long_text_def)
  finally show ?thesis .
qed

text \<open>
  Claim C6, as stated, fails above the ceiling: for 99999 letters \<open>a\<close> followed by
  a space and a \<open>b\<close> the first pass cuts behind the space and returns 100000
  characters ending in the space; the second pass trims that space.
\<close>

theorem sanitizeText_not_idempotent_when_cut:
  "sanitizeText (sanitizeText long_text) \<noteq> sanitizeText long_text"
proof -
  have "length (sanitizeText long_text) = 100000"
    by (simp add: sanitizeText_long_text)
  moreover have "trim (replicate 99999 0x61 @ [SP]) = replicate 99999 0x61"
  proof -
    have "dropWhile isSpace (replicate 99999 0x61 @ [SP]) = replicate 99999 0x61 @ [SP]"
      by (rule dropWhile_starts_clean) (simp add: starts_clean_replicate nonspace_a)
    moreover have "dropWhile isSpace (SP # replicate 99999 0x61) = replicate 99999 0x61"
      by (simp add: nonspace_a)
    ultimately show ?thesis by (simp add: trim_def)
  qed
  then have "trim (sanitizeText long_text) = replicate 99999 0x61"
    by (simp only: sanitizeText_long_text)
  then have "sanitizeText (sanitizeText long_text) = replicate 99999 0x61"
    by (simp only: sanitizeText_twice)
  then have "length (sanitizeText (sanitizeText long_text)) = 99999"
    by simp
  ultimately show ?thesis by auto
qed

end
